theory Spec2Isabelle
  imports Main "HOL-Library.Word" "HOL-Library.Stream"
begin

unbundle bit_operations_syntax

section \<open>ZeroTier identities: the memory-hard hash, key generation, mining, encodings\<close>

text \<open>
  A shallow embedding of \<^verbatim>\<open>identity.go\<close> (package \<^verbatim>\<open>ztidentity\<close>). Byte arrays and
  slices are lists of 8-bit words, \<^verbatim>\<open>uint64\<close> and \<^verbatim>\<open>uint\<close> are 64-bit words, loop
  variables of type \<^verbatim>\<open>int\<close> that only count upwards from 0 are naturals. A Go panic is
  the left summand of a result.
\<close>

subsection \<open>Bytes, panics and slices\<close>

type_synonym byte = "8 word"

datatype panic = NotEnoughEntropy | SliceBoundsOutOfRange | IndexOutOfRange

text \<open>\<^verbatim>\<open>xs[lo:hi]\<close> on a slice or array whose length and capacity are \<open>length xs\<close>.\<close>

definition slice :: "'a list \<Rightarrow> nat \<Rightarrow> nat \<Rightarrow> panic + 'a list" where
  "slice xs lo hi =
     (if lo \<le> hi \<and> hi \<le> length xs then Inr (take (hi - lo) (drop lo xs))
      else Inl SliceBoundsOutOfRange)"

text \<open>\<^verbatim>\<open>xs[lo:]\<close>.\<close>

definition slice_from :: "'a list \<Rightarrow> nat \<Rightarrow> panic + 'a list" where
  "slice_from xs lo =
     (if lo \<le> length xs then Inr (drop lo xs) else Inl SliceBoundsOutOfRange)"

text \<open>
  The array \<open>xs\<close> after \<^verbatim>\<open>copy(xs[lo:lo+n], src)\<close> with \<open>n = length src\<close>: the
  destination window is overwritten, everything else is kept. Every call site has
  checked the window with \<^const>\<open>slice\<close> (or slices a fixed array at constants).
\<close>

definition store :: "'a list \<Rightarrow> nat \<Rightarrow> 'a list \<Rightarrow> 'a list" where
  "store xs lo src = take lo xs @ src @ drop (lo + length src) xs"

subsection \<open>encoding/binary\<close>

text \<open>\<^verbatim>\<open>binary.BigEndian.Uint64(b)\<close>: panics unless \<open>b\<close> has 8 bytes.\<close>

definition BigEndian_Uint64 :: "byte list \<Rightarrow> panic + 64 word" where
  "BigEndian_Uint64 b =
     (if length b < 8 then Inl IndexOutOfRange
      else Inr (ucast (b ! 7) OR push_bit 8 (ucast (b ! 6)) OR push_bit 16 (ucast (b ! 5))
             OR push_bit 24 (ucast (b ! 4)) OR push_bit 32 (ucast (b ! 3))
             OR push_bit 40 (ucast (b ! 2)) OR push_bit 48 (ucast (b ! 1))
             OR push_bit 56 (ucast (b ! 0))))"

text \<open>The 8 bytes that \<^verbatim>\<open>binary.LittleEndian.PutUint64(b, v)\<close> writes.\<close>

definition LittleEndian_PutUint64 :: "64 word \<Rightarrow> byte list" where
  "LittleEndian_PutUint64 v =
     [ucast v, ucast (drop_bit 8 v), ucast (drop_bit 16 v), ucast (drop_bit 24 v),
      ucast (drop_bit 32 v), ucast (drop_bit 40 v), ucast (drop_bit 48 v),
      ucast (drop_bit 56 v)]"

subsection \<open>The cryptographic primitives of the imported packages\<close>

text \<open>
  SHA-512, the Salsa20 keystream, the ed25519 public key of a seed and the curve25519
  base-point multiplication belong to imported packages; the functions of this file are
  parametric in them. A fixed-size result array is a function from the index to the
  byte, read at the indices of the array:
  \<^item> \<open>sha512_Sum512 p m\<close>: the 64 bytes of \<^verbatim>\<open>sha512.Sum512(m)\<close>;
  \<^item> \<open>salsa_keystream p key ctr j\<close>: byte \<open>j\<close> of the Salsa20 keystream for the 32-byte
    key and the 16 raw counter bytes (nonce and block position);
  \<^item> \<open>ed25519_public p seed\<close>: the 32 bytes of the public key of a 32-byte seed;
  \<^item> \<open>curve25519_ScalarBaseMult p k\<close>: the 32 bytes of the public point of a scalar.
\<close>

record primitives =
  sha512_Sum512 :: "byte list \<Rightarrow> nat \<Rightarrow> byte"
  salsa_keystream :: "byte list \<Rightarrow> byte list \<Rightarrow> nat \<Rightarrow> byte"
  ed25519_public :: "byte list \<Rightarrow> nat \<Rightarrow> byte"
  curve25519_ScalarBaseMult :: "byte list \<Rightarrow> nat \<Rightarrow> byte"

text \<open>
  \<^verbatim>\<open>salsa.XORKeyStream(out, in, &counter, &key)\<close>: the bytes written to \<open>out\<close>, as many
  as \<open>in\<close> has. The caller's counter array is not changed.
\<close>

definition XORKeyStream :: "primitives \<Rightarrow> byte list \<Rightarrow> byte list \<Rightarrow> byte list \<Rightarrow> byte list" where
  "XORKeyStream p inp counter key =
     map (\<lambda>j. (inp ! j) XOR salsa_keystream p key counter j) [0..<length inp]"

subsection \<open>computeZeroTierIdentityMemoryHardHash\<close>

definition ztIdentityGenMemory :: nat where
  "ztIdentityGenMemory = 2097152"

definition ztIdentityHashCashFirstByteLessThan :: byte where
  "ztIdentityHashCashFirstByteLessThan = 17"

record hash_state =
  genmem :: "byte list"
  s512 :: "byte list"
  s20ctr :: "byte list"
  s20ctri :: "64 word"

text \<open>
  The fill loop (lines 57 to 61), entered with the loop variable \<open>i\<close>. The key array is
  never written after line 53 and is an argument.
\<close>

function fill :: "primitives \<Rightarrow> byte list \<Rightarrow> nat \<Rightarrow> hash_state \<Rightarrow> panic + hash_state" where
  "fill p s20key i st =
     (if i < ztIdentityGenMemory then
        let ctr = store (s20ctr st) 8 (LittleEndian_PutUint64 (s20ctri st)) in
        (case slice (genmem st) i (i + 64) of
           Inl e \<Rightarrow> Inl e
         | Inr out \<Rightarrow>
             (if i < 64 then Inl SliceBoundsOutOfRange
              else (case slice (genmem st) (i - 64) i of
                      Inl e \<Rightarrow> Inl e
                    | Inr inp \<Rightarrow>
                        fill p s20key (i + 64)
                          (st\<lparr>genmem := store (genmem st) i (XORKeyStream p inp ctr s20key),
                              s20ctr := ctr,
                              s20ctri := s20ctri st + 1\<rparr>))))
      else Inr st)"
  by pat_completeness auto
termination
  by (relation "measure (\<lambda>(p, k, i, st). ztIdentityGenMemory - i)") auto

text \<open>Lines 65 to 68: the two indices of one mixing step, read at the loop variable \<open>i\<close>.\<close>

definition mix_indices :: "byte list \<Rightarrow> nat \<Rightarrow> panic + (nat \<times> nat)" where
  "mix_indices gm i =
     (case slice_from gm i of
        Inl e \<Rightarrow> Inl e
      | Inr b1 \<Rightarrow>
          (case BigEndian_Uint64 b1 of
             Inl e \<Rightarrow> Inl e
           | Inr w1 \<Rightarrow>
               (case slice_from gm (i + 8) of
                  Inl e \<Rightarrow> Inl e
                | Inr b2 \<Rightarrow>
                    (case BigEndian_Uint64 b2 of
                       Inl e \<Rightarrow> Inl e
                     | Inr w2 \<Rightarrow>
                         Inr (unat ((w1 AND 7) * 8),
                              unat ((w2 mod word_of_nat (ztIdentityGenMemory div 8)) * 8))))))"

text \<open>Lines 69 to 73: the 8 bytes at \<open>idx2\<close> of the buffer and at \<open>idx1\<close> of the seed change places.\<close>

definition swap8 :: "byte list \<Rightarrow> byte list \<Rightarrow> nat \<Rightarrow> nat \<Rightarrow> panic + (byte list \<times> byte list)" where
  "swap8 gmem seed idx1 idx2 =
     (case slice gmem idx2 (idx2 + 8) of
        Inl e \<Rightarrow> Inl e
      | Inr gm \<Rightarrow>
          (case slice seed idx1 (idx1 + 8) of
             Inl e \<Rightarrow> Inl e
           | Inr d \<Rightarrow>
               (let tmp = gm in Inr (store gmem idx2 d, store seed idx1 tmp))))"

text \<open>The mixing loop (lines 64 to 77), entered with the loop variable \<open>i\<close>.\<close>

function mixing :: "primitives \<Rightarrow> byte list \<Rightarrow> nat \<Rightarrow> hash_state \<Rightarrow> panic + hash_state" where
  "mixing p s20key i st =
     (if i < ztIdentityGenMemory then
        (case mix_indices (genmem st) i of
           Inl e \<Rightarrow> Inl e
         | Inr (idx1, idx2) \<Rightarrow>
             (case swap8 (genmem st) (s512 st) idx1 idx2 of
                Inl e \<Rightarrow> Inl e
              | Inr (gmem', seed') \<Rightarrow>
                  (let ctr = store (s20ctr st) 8 (LittleEndian_PutUint64 (s20ctri st)) in
                   mixing p s20key (i + 8 + 8)
                     \<lparr>genmem = gmem',
                      s512 = XORKeyStream p seed' ctr s20key,
                      s20ctr = ctr,
                      s20ctri = s20ctri st + 1\<rparr>)))
      else Inr st)"
  by pat_completeness auto
termination
  by (relation "measure (\<lambda>(p, k, i, st). ztIdentityGenMemory - i)") auto

text \<open>Lines 47 to 56: the state in which the fill loop is entered.\<close>

definition hash_init :: "primitives \<Rightarrow> byte list \<Rightarrow> byte list \<times> hash_state" where
  "hash_init p publicKey =
     (let seed = map (sha512_Sum512 p publicKey) [0..<64];
          gmem0 = replicate ztIdentityGenMemory (0 :: byte);
          s20key = store (replicate 32 0) 0 (take 32 seed);
          ctr = store (replicate 16 0) 0 (take 8 (drop 32 seed))
      in (s20key,
          \<lparr>genmem = store gmem0 0 (XORKeyStream p (take 64 gmem0) ctr s20key),
           s512 = seed,
           s20ctr = ctr,
           s20ctri = 0 + 1\<rparr>))"

text \<open>The state after the fill loop, and the state after the mixing loop.\<close>

definition hash_filled :: "primitives \<Rightarrow> byte list \<Rightarrow> panic + hash_state" where
  "hash_filled p publicKey = (case hash_init p publicKey of (s20key, st) \<Rightarrow> fill p s20key 64 st)"

definition hash_mixed :: "primitives \<Rightarrow> byte list \<Rightarrow> panic + hash_state" where
  "hash_mixed p publicKey =
     (case hash_filled p publicKey of
        Inl e \<Rightarrow> Inl e
      | Inr st \<Rightarrow> mixing p (fst (hash_init p publicKey)) 0 st)"

definition computeZeroTierIdentityMemoryHardHash :: "primitives \<Rightarrow> byte list \<Rightarrow> panic + byte list" where
  "computeZeroTierIdentityMemoryHardHash p publicKey =
     (case hash_mixed p publicKey of Inl e \<Rightarrow> Inl e | Inr st \<Rightarrow> Inr (s512 st))"

subsection \<open>The random source\<close>

text \<open>
  \<^verbatim>\<open>crypto/rand.Reader\<close> is an \<^verbatim>\<open>io.Reader\<close> of another package. What it will deliver
  is a stream: at each position a byte, or \<open>None\<close> where the read that reaches this
  position returns an error. \<^verbatim>\<open>io.ReadFull(r, buf)\<close> with \<open>n = len(buf)\<close> consumes the
  stream up to the \<open>n\<close>-th byte or up to the first error, and returns the rest of the
  stream; \<open>None\<close> is its non-nil error.
\<close>

type_synonym rand = "byte option stream"

fun io_ReadFull :: "nat \<Rightarrow> rand \<Rightarrow> byte list option \<times> rand" where
  "io_ReadFull 0 rs = (Some [], rs)"
| "io_ReadFull (Suc n) rs =
     (case shd rs of
        None \<Rightarrow> (None, stl rs)
      | Some b \<Rightarrow>
          (case io_ReadFull n (stl rs) of
             (None, rs') \<Rightarrow> (None, rs')
           | (Some bs, rs') \<Rightarrow> (Some (b # bs), rs')))"

subsection \<open>generateDualPair\<close>

text \<open>
  \<^verbatim>\<open>ed25519.GenerateKey(rand)\<close> reads a 32-byte seed; the private key is the seed
  followed by the public key. On a read error it returns nil slices and the error.
  The result here is \<open>((publicKey, privateKey), error?)\<close> and the rest of the stream.
\<close>

definition ed25519_GenerateKey ::
  "primitives \<Rightarrow> rand \<Rightarrow> ((byte list \<times> byte list) \<times> bool) \<times> rand" where
  "ed25519_GenerateKey p rs =
     (case io_ReadFull 32 rs of
        (None, rs') \<Rightarrow> ((([], []), True), rs')
      | (Some seed, rs') \<Rightarrow>
          (let pub = map (ed25519_public p seed) [0..<32]
           in (((pub, seed @ pub), False), rs')))"

text \<open>Line 84 drops the error of \<^verbatim>\<open>ed25519.GenerateKey\<close>; line 87 checks that of the second read.\<close>

definition generateDualPair :: "primitives \<Rightarrow> rand \<Rightarrow> panic + (byte list \<times> byte list \<times> rand)" where
  "generateDualPair p rs =
     (case ed25519_GenerateKey p rs of
        (((k0pub, k0priv), _), rs1) \<Rightarrow>
          (case io_ReadFull 32 rs1 of
             (None, rs2) \<Rightarrow> Inl NotEnoughEntropy
           | (Some k1priv, rs2) \<Rightarrow>
               (let k1pub = map (curve25519_ScalarBaseMult p k1priv) [0..<32];
                    pub0 = store (replicate 64 0) 0 k1pub
                in (case slice k0pub 0 32 of
                      Inl e \<Rightarrow> Inl e
                    | Inr k0pub32 \<Rightarrow>
                        (let pub = store pub0 32 k0pub32;
                             priv0 = store (replicate 64 0) 0 k1priv
                         in (case slice k0priv 0 32 of
                               Inl e \<Rightarrow> Inl e
                             | Inr k0priv32 \<Rightarrow> Inr (pub, store priv0 32 k0priv32, rs2)))))))"

subsection \<open>ZeroTierIdentity and NewZeroTierIdentity\<close>

record ZeroTierIdentity =
  address :: "64 word"
  publicKey :: "byte list"
  privateKey :: "byte list option"

text \<open>Lines 112 to 120: the address assembled from the digest.\<close>

definition digest_address :: "byte list \<Rightarrow> 64 word" where
  "digest_address dig =
     push_bit 8 (push_bit 8 (push_bit 8 (push_bit 8 (ucast (dig ! 59)) OR ucast (dig ! 60))
       OR ucast (dig ! 61)) OR ucast (dig ! 62)) OR ucast (dig ! 63)"

text \<open>
  The loop of \<^verbatim>\<open>NewZeroTierIdentity\<close>, with the named result \<open>ident\<close> as its state. The loop
  has no bound: \<open>None\<close> is the run that never returns, \<open>Some (Inl e)\<close> a panic. The digest
  is a slice of the 64-byte array \<open>s512\<close>, so the constant indices are in range.
\<close>

partial_function (option) mine ::
  "primitives \<Rightarrow> ZeroTierIdentity \<Rightarrow> rand \<Rightarrow> (panic + ZeroTierIdentity \<times> rand) option" where
  "mine p ident rs =
     (case generateDualPair p rs of
        Inl e \<Rightarrow> Some (Inl e)
      | Inr (pub, priv, rs') \<Rightarrow>
          (case computeZeroTierIdentityMemoryHardHash p pub of
             Inl e \<Rightarrow> Some (Inl e)
           | Inr dig \<Rightarrow>
               (if dig ! 0 < ztIdentityHashCashFirstByteLessThan \<and> dig ! 59 \<noteq> 0xff then
                  (let ident1 = ident\<lparr>address := digest_address dig\<rparr> in
                   if address ident1 \<noteq> 0 then
                     Some (Inr (ident1\<lparr>publicKey := pub, privateKey := Some priv\<rparr>, rs'))
                   else mine p ident1 rs')
                else mine p ident rs')))"

definition NewZeroTierIdentity :: "primitives \<Rightarrow> rand \<Rightarrow> (panic + ZeroTierIdentity \<times> rand) option" where
  "NewZeroTierIdentity p rs =
     mine p \<lparr>address = 0, publicKey = replicate 64 0, privateKey = None\<rparr> rs"

subsection \<open>The string forms\<close>

text \<open>The digit table of package \<^verbatim>\<open>fmt\<close>.\<close>

definition ldigits :: string where
  "ldigits = ''0123456789abcdefx''"

text \<open>
  \<^verbatim>\<open>%.10x\<close> on a \<^verbatim>\<open>uint64\<close> (\<^verbatim>\<open>fmtInteger\<close>, base 16): the digits from the least
  significant one, then zeros up to the precision.
\<close>

function hex_digits :: "64 word \<Rightarrow> string" where
  "hex_digits u =
     (if 16 \<le> u then hex_digits (drop_bit 4 u) @ [ldigits ! unat (u AND 0xF)]
      else [ldigits ! unat u])"
  by pat_completeness auto
termination
proof (relation "measure unat")
  show "wf (measure (unat :: 64 word \<Rightarrow> nat))" by simp
next
  fix u :: "64 word"
  assume "16 \<le> u"
  then have "16 \<le> unat u" by (simp add: word_le_nat_alt)
  then have "unat u div 16 < unat u" by simp
  then show "(drop_bit 4 u, u) \<in> measure unat"
    by (simp add: drop_bit_eq_div unat_div)
qed

definition fmtInteger_x :: "nat \<Rightarrow> 64 word \<Rightarrow> string" where
  "fmtInteger_x prec u =
     (let ds = hex_digits u in replicate (prec - length ds) (CHR ''0'') @ ds)"

text \<open>\<^verbatim>\<open>%x\<close> on a byte array (\<^verbatim>\<open>fmtSbx\<close>): two digits for each byte.\<close>

definition fmtSbx :: "byte list \<Rightarrow> string" where
  "fmtSbx bs = concat (map (\<lambda>c. [ldigits ! unat (drop_bit 4 c), ldigits ! unat (c AND 0xF)]) bs)"

definition PrivateKeyString :: "ZeroTierIdentity \<Rightarrow> string" where
  "PrivateKeyString ident =
     (case privateKey ident of
        Some priv \<Rightarrow>
          fmtInteger_x 10 (address ident) @ '':0:'' @ fmtSbx (publicKey ident) @ '':'' @ fmtSbx priv
      | None \<Rightarrow> '''')"

definition PublicKeyString :: "ZeroTierIdentity \<Rightarrow> string" where
  "PublicKeyString ident = fmtInteger_x 10 (address ident) @ '':0:'' @ fmtSbx (publicKey ident)"

definition IDString :: "ZeroTierIdentity \<Rightarrow> string" where
  "IDString ident = fmtInteger_x 10 (address ident)"

subsection \<open>Quantities of a run of the hash\<close>

text \<open>The seed of line 47, and the 16 counter bytes of keystream block \<open>b\<close>: the nonce of
  line 54 and the block number, little endian (line 58).\<close>

definition seed_of :: "primitives \<Rightarrow> byte list \<Rightarrow> byte list" where
  "seed_of p pk = map (sha512_Sum512 p pk) [0..<64]"

definition block_counter :: "primitives \<Rightarrow> byte list \<Rightarrow> nat \<Rightarrow> byte list" where
  "block_counter p pk b =
     take 8 (drop 32 (seed_of p pk)) @ LittleEndian_PutUint64 (word_of_nat b)"

text \<open>
  \<open>s20ctri\<close> is incremented once after every call of \<^verbatim>\<open>XORKeyStream\<close>: its value after
  the fill loop counts the keystream blocks of the fill, and its increase over the mixing
  loop counts the re-encryptions of the seed.
\<close>

definition mixing_reencryptions :: "primitives \<Rightarrow> byte list \<Rightarrow> nat option" where
  "mixing_reencryptions p pk =
     (case hash_filled p pk of
        Inl e \<Rightarrow> None
      | Inr st1 \<Rightarrow>
          (case hash_mixed p pk of
             Inl e \<Rightarrow> None
           | Inr st2 \<Rightarrow> Some (unat (s20ctri st2 - s20ctri st1))))"

definition fill_keystream_blocks :: "primitives \<Rightarrow> byte list \<Rightarrow> nat option" where
  "fill_keystream_blocks p pk =
     (case hash_filled p pk of Inl e \<Rightarrow> None | Inr st1 \<Rightarrow> Some (unat (s20ctri st1)))"

text \<open>Primitives to run the code on: a digest with two non-zero bytes and a zero keystream.\<close>

definition test_primitives :: primitives where
  "test_primitives =
     \<lparr>sha512_Sum512 = (\<lambda>m j. if j = 15 \<or> j = 63 then 1 else 0),
      salsa_keystream = (\<lambda>key ctr j. 0),
      ed25519_public = (\<lambda>seed j. 0),
      curve25519_ScalarBaseMult = (\<lambda>k j. 0)\<rparr>"

text \<open>
  Following the specification's words (section 4.1, step 4): the pair of big-endian
  integers is read from the seed, at an index that wraps within its 64 bytes; the indices
  are derived from the pair as in lines 65 and 67.
\<close>

definition spec_seed_indices :: "byte list \<Rightarrow> nat \<Rightarrow> panic + (nat \<times> nat)" where
  "spec_seed_indices seed i =
     (case BigEndian_Uint64 (take 8 (drop (i mod 64) seed)) of
        Inl e \<Rightarrow> Inl e
      | Inr w1 \<Rightarrow>
          (case BigEndian_Uint64 (take 8 (drop ((i + 8) mod 64) seed)) of
             Inl e \<Rightarrow> Inl e
           | Inr w2 \<Rightarrow>
               Inr (unat ((w1 AND 7) * 8),
                    unat ((w2 mod word_of_nat (ztIdentityGenMemory div 8)) * 8))))"

text \<open>The indices of the first mixing step (\<open>i = 0\<close>) of a run, as the code computes them
  and as the specification's words give them.\<close>

definition first_mix_indices :: "primitives \<Rightarrow> byte list \<Rightarrow> panic + (nat \<times> nat)" where
  "first_mix_indices p pk =
     (case hash_filled p pk of Inl e \<Rightarrow> Inl e | Inr st \<Rightarrow> mix_indices (genmem st) 0)"

definition spec_first_mix_indices :: "primitives \<Rightarrow> byte list \<Rightarrow> panic + (nat \<times> nat)" where
  "spec_first_mix_indices p pk =
     (case hash_filled p pk of Inl e \<Rightarrow> Inl e | Inr st \<Rightarrow> spec_seed_indices (s512 st) 0)"

text \<open>The unsigned integer that a list of bytes is, most significant byte first.\<close>

definition be_nat :: "byte list \<Rightarrow> nat" where
  "be_nat bs = foldl (\<lambda>a b. 256 * a + unat b) 0 bs"

text \<open>
  Reading a string form back: the value of a hexadecimal digit (its place among the sixteen
  lowercase digits), the number that a string of digits denotes, and the bytes that a
  string of digit pairs denotes.
\<close>

definition hexval :: "char \<Rightarrow> nat" where
  "hexval c = length (takeWhile (\<lambda>d. d \<noteq> c) ''0123456789abcdef'')"

definition hex_nat :: "string \<Rightarrow> nat" where
  "hex_nat s = foldl (\<lambda>a c. 16 * a + hexval c) 0 s"

fun hex_bytes :: "string \<Rightarrow> byte list" where
  "hex_bytes (c # d # cs) = word_of_nat (16 * hexval c + hexval d) # hex_bytes cs"
| "hex_bytes _ = []"

section \<open>Properties\<close>

subsection \<open>Slices and stores\<close>

declare fill.simps [simp del] mixing.simps [simp del] hex_digits.simps [simp del]


lemma length_store: "lo + length src \<le> length xs \<Longrightarrow> length (store xs lo src) = length xs"
  by (simp add: store_def)

lemma nth_store:
  "lo + length src \<le> length xs \<Longrightarrow> j < length xs \<Longrightarrow>
   store xs lo src ! j = (if lo \<le> j \<and> j < lo + length src then src ! (j - lo) else xs ! j)"
  by (auto simp: store_def nth_append)

lemma take_store_before: "n \<le> lo \<Longrightarrow> lo \<le> length xs \<Longrightarrow> take n (store xs lo src) = take n xs"
  by (simp add: store_def)

lemma window_store_same:
  "lo + length src \<le> length xs \<Longrightarrow> take (length src) (drop lo (store xs lo src)) = src"
  by (simp add: store_def)

lemma length_XORKeyStream: "length (XORKeyStream p inp c k) = length inp"
  by (simp add: XORKeyStream_def)

lemma slice_Inr: "lo \<le> hi \<Longrightarrow> hi \<le> length xs \<Longrightarrow> slice xs lo hi = Inr (take (hi - lo) (drop lo xs))"
  by (simp add: slice_def)

lemma length_LittleEndian_PutUint64: "length (LittleEndian_PutUint64 v) = 8"
  by (simp add: LittleEndian_PutUint64_def)

subsection \<open>Index arithmetic on words\<close>

lemma idx1_val: "unat (((w::64 word) AND 7) * 8) = 8 * (unat w mod 8)"
proof -
  have "w AND 7 = w mod 8"
    using take_bit_eq_mask [of 3 w] by (simp add: mask_eq_exp_minus_1 take_bit_eq_mod)
  then have a: "unat (w AND 7) = unat w mod 8"
    by (simp add: unat_mod)
  have "unat w mod 8 < 8" by simp
  then have "unat (w AND 7) * unat (8 :: 64 word) < 2 ^ LENGTH(64)"
    unfolding a by simp
  then have "unat ((w AND 7) * 8) = unat (w AND 7) * unat (8 :: 64 word)"
    by (rule unat_mult_lem [THEN iffD1])
  then show ?thesis using a by simp
qed

lemma idx2_val: "unat (((w::64 word) mod word_of_nat (ztIdentityGenMemory div 8)) * 8) = 8 * (unat w mod (ztIdentityGenMemory div 8))"
proof -
  have c: "(word_of_nat (ztIdentityGenMemory div 8) :: 64 word) = 262144"
    by (simp add: ztIdentityGenMemory_def)
  have a: "unat (w mod 262144) = unat w mod 262144"
    by (simp add: unat_mod)
  have "unat w mod 262144 < 262144" by simp
  then have "unat (w mod 262144) * unat (8 :: 64 word) < 2 ^ LENGTH(64)"
    unfolding a by simp
  then have "unat ((w mod 262144) * 8) = unat (w mod 262144) * unat (8 :: 64 word)"
    by (rule unat_mult_lem [THEN iffD1])
  then show ?thesis using a c by (simp add: ztIdentityGenMemory_def)
qed

lemma shift_or_byte:
  fixes x :: "64 word" and b :: byte
  assumes "unat x < 2 ^ 56"
  shows "unat (push_bit 8 x OR ucast b) = 256 * unat x + unat b"
proof -
  have disj: "\<And>n. \<not> bit (push_bit 8 x) n \<or> \<not> bit (ucast b :: 64 word) n"
    by (auto simp: bit_push_bit_iff bit_ucast_iff dest: bit_imp_le_length)
  have "push_bit 8 x OR ucast b = push_bit 8 x + ucast b"
    using disj by (simp add: disjunctive_add)
  moreover have "unat (push_bit 8 x + (ucast b :: 64 word)) = 256 * unat x + unat b"
  proof -
    have b: "unat b < 256" using unsigned_less [of b] by simp
    have "unat (push_bit 8 x) = 256 * unat x"
      using assms by (simp add: push_bit_eq_mult unat_word_ariths)
    moreover have "unat (ucast b :: 64 word) = unat b"
      by (simp add: unsigned_ucast_eq take_bit_nat_eq_self_iff) (use b in simp)
    ultimately show ?thesis using assms b by (simp add: unat_word_ariths)
  qed
  ultimately show ?thesis by simp
qed

subsection \<open>The fill loop\<close>

lemma mem_64: "ztIdentityGenMemory = 64 * 32768"
  by (simp add: ztIdentityGenMemory_def)

lemma fill_total:
  "length (genmem st) = ztIdentityGenMemory \<Longrightarrow> 64 dvd i \<Longrightarrow> 64 \<le> i \<Longrightarrow> length (s20ctr st) = 16 \<Longrightarrow>
   \<exists>st'. fill p k i st = Inr st' \<and> length (genmem st') = ztIdentityGenMemory \<and>
         s512 st' = s512 st \<and> length (s20ctr st') = 16 \<and>
         take 8 (s20ctr st') = take 8 (s20ctr st) \<and>
         take i (genmem st') = take i (genmem st) \<and>
         s20ctri st' = s20ctri st + word_of_nat ((ztIdentityGenMemory - i) div 64)"
proof (induction p k i st rule: fill.induct)
  case (1 p k i st)
  show ?case
  proof (cases "i < ztIdentityGenMemory")
    case False
    then show ?thesis using "1.prems" by (simp add: fill.simps)
  next
    case True
    from True "1.prems"(2) have le: "i + 64 \<le> ztIdentityGenMemory"
      unfolding mem_64 by (elim dvdE) auto
    let ?ctr = "store (s20ctr st) 8 (LittleEndian_PutUint64 (s20ctri st))"
    let ?inp = "take 64 (drop (i - 64) (genmem st))"
    let ?st = "st\<lparr>genmem := store (genmem st) i (XORKeyStream p ?inp ?ctr k),
                  s20ctr := ?ctr, s20ctri := s20ctri st + 1\<rparr>"
    have linp: "length ?inp = 64" using le "1.prems" by simp
    have unf: "fill p k i st = fill p k (i + 64) ?st"
      using True le "1.prems"
      by (subst fill.simps) (simp add: slice_Inr Let_def)
    have lg: "length (genmem ?st) = ztIdentityGenMemory"
      using le "1.prems" linp by (simp add: length_store length_XORKeyStream)
    have lc: "length (s20ctr ?st) = 16"
      using "1.prems" by (simp add: length_store length_LittleEndian_PutUint64)
    have s1: "slice (genmem st) i (i + 64) = Inr (take 64 (drop i (genmem st)))"
      using le "1.prems" by (simp add: slice_Inr)
    have s2: "slice (genmem st) (i - 64) i = Inr ?inp"
      using le "1.prems" by (simp add: slice_Inr)
    have "\<exists>st'. fill p k (i + 64) ?st = Inr st' \<and> length (genmem st') = ztIdentityGenMemory \<and>
         s512 st' = s512 ?st \<and> length (s20ctr st') = 16 \<and>
         take 8 (s20ctr st') = take 8 (s20ctr ?st) \<and>
         take (i + 64) (genmem st') = take (i + 64) (genmem ?st) \<and>
         s20ctri st' = s20ctri ?st + word_of_nat ((ztIdentityGenMemory - (i + 64)) div 64)"
      using "1.IH"[OF True refl s1 _ s2 lg _ _ lc] "1.prems" by simp
    then obtain st' where st': "fill p k (i + 64) ?st = Inr st'" "length (genmem st') = ztIdentityGenMemory"
         "s512 st' = s512 ?st" "length (s20ctr st') = 16"
         "take 8 (s20ctr st') = take 8 (s20ctr ?st)"
         "take (i + 64) (genmem st') = take (i + 64) (genmem ?st)"
         "s20ctri st' = s20ctri ?st + word_of_nat ((ztIdentityGenMemory - (i + 64)) div 64)" by blast
    have "take i (genmem st') = take i (take (i + 64) (genmem st'))" by simp
    also have "\<dots> = take i (take (i + 64) (genmem ?st))" using st'(6) by simp
    also have "\<dots> = take i (genmem st)" using le "1.prems" by (simp add: take_store_before)
    finally have tk: "take i (genmem st') = take i (genmem st)" .
    have t8: "take 8 (s20ctr ?st) = take 8 (s20ctr st)"
      using "1.prems" by (simp add: take_store_before)
    have "(ztIdentityGenMemory - i) div 64 = Suc ((ztIdentityGenMemory - (i + 64)) div 64)"
      using le le_div_geq [of 64 "ztIdentityGenMemory - i"] by simp
    then have cnt: "s20ctri st' = s20ctri st + word_of_nat ((ztIdentityGenMemory - i) div 64)"
      using st'(7) by (simp add: add.assoc)
    show ?thesis using st' tk t8 unf cnt by simp
  qed
qed

lemma store_ctr:
  "length c = 16 \<Longrightarrow> store c 8 (LittleEndian_PutUint64 v) = take 8 c @ LittleEndian_PutUint64 v"
  by (simp add: store_def length_LittleEndian_PutUint64)

lemma fill_blocks:
  "length (genmem st) = ztIdentityGenMemory \<Longrightarrow> 64 dvd i \<Longrightarrow> 64 \<le> i \<Longrightarrow> length (s20ctr st) = 16 \<Longrightarrow>
   fill p k i st = Inr st' \<Longrightarrow> i \<le> 64 * b \<Longrightarrow> 64 * b < ztIdentityGenMemory \<Longrightarrow>
   take 64 (drop (64 * b) (genmem st')) =
     XORKeyStream p (take 64 (drop (64 * (b - 1)) (genmem st')))
       (take 8 (s20ctr st) @ LittleEndian_PutUint64 (s20ctri st + word_of_nat (b - i div 64))) k"
proof (induction p k i st rule: fill.induct)
  case (1 p k i st)
  from "1.prems" have True: "i < ztIdentityGenMemory" by simp
  from True "1.prems"(2) have le: "i + 64 \<le> ztIdentityGenMemory"
    unfolding mem_64 by (elim dvdE) auto
  let ?ctr = "store (s20ctr st) 8 (LittleEndian_PutUint64 (s20ctri st))"
  let ?inp = "take 64 (drop (i - 64) (genmem st))"
  let ?out = "XORKeyStream p ?inp ?ctr k"
  let ?st = "st\<lparr>genmem := store (genmem st) i ?out,
                s20ctr := ?ctr, s20ctri := s20ctri st + 1\<rparr>"
  have linp: "length ?inp = 64" using le "1.prems" by simp
  have lout: "length ?out = 64" using linp by (simp add: length_XORKeyStream)
  have unf: "fill p k i st = fill p k (i + 64) ?st"
    using True le "1.prems"
    by (subst fill.simps) (simp add: slice_Inr Let_def)
  have lg: "length (genmem ?st) = ztIdentityGenMemory"
    using le "1.prems" lout by (simp add: length_store)
  have lc: "length (s20ctr ?st) = 16"
    using "1.prems" by (simp add: length_store length_LittleEndian_PutUint64)
  have s1: "slice (genmem st) i (i + 64) = Inr (take 64 (drop i (genmem st)))"
    using le "1.prems" by (simp add: slice_Inr)
  have s2: "slice (genmem st) (i - 64) i = Inr ?inp"
    using le "1.prems" by (simp add: slice_Inr)
  have next_eq: "fill p k (i + 64) ?st = Inr st'" using unf "1.prems" by simp
  have d64: "64 dvd i + 64" using "1.prems" by simp
  from fill_total[OF lg d64 _ lc, of p k]
  have pre: "take (i + 64) (genmem st') = take (i + 64) (genmem ?st)"
    using next_eq by auto
  have t8: "take 8 (s20ctr ?st) = take 8 (s20ctr st)"
    using "1.prems" by (simp add: take_store_before)
  show ?case
  proof (cases "i = 64 * b")
    case True
    have "take 64 (drop i (genmem st')) = take 64 (drop i (take (i + 64) (genmem st')))"
      by (simp add: drop_take)
    also have "\<dots> = take 64 (drop i (store (genmem st) i ?out))"
      using pre by (simp add: drop_take)
    also have "\<dots> = ?out"
      using window_store_same[of i ?out "genmem st"] le "1.prems" lout by simp
    finally have blk: "take 64 (drop i (genmem st')) = ?out" .
    have "take 64 (drop (i - 64) (genmem st')) = take 64 (drop (i - 64) (take i (take (i + 64) (genmem st'))))"
      using "1.prems" by (simp add: drop_take)
    also have "\<dots> = take 64 (drop (i - 64) (take i (store (genmem st) i ?out)))"
      using pre by simp
    also have "\<dots> = ?inp"
      using le "1.prems" by (simp add: take_store_before drop_take)
    finally have prev: "take 64 (drop (i - 64) (genmem st')) = ?inp" .
    have idx: "64 * (b - 1) = i - 64" using True by simp
    show ?thesis
      using blk prev True "1.prems"(4) by (simp add: store_ctr right_diff_distrib')
  next
    case False
    with "1.prems" d64 have ge: "i + 64 \<le> 64 * b"
      by (elim dvdE) auto
    have "take 64 (drop (64 * b) (genmem st')) =
     XORKeyStream p (take 64 (drop (64 * (b - 1)) (genmem st')))
       (take 8 (s20ctr ?st) @ LittleEndian_PutUint64 (s20ctri ?st + word_of_nat (b - (i + 64) div 64))) k"
      using "1.IH"[OF True refl s1 _ s2 lg d64 _ lc next_eq ge] "1.prems" by simp
    moreover have "s20ctri ?st + word_of_nat (b - (i + 64) div 64) = s20ctri st + word_of_nat (b - i div 64)"
    proof -
      have "b - i div 64 = Suc (b - (i + 64) div 64)" using ge by simp
      then show ?thesis by simp
    qed
    ultimately show ?thesis using t8 by (simp add: add.assoc)
  qed
qed

subsection \<open>The mixing loop\<close>

lemma mem_16: "ztIdentityGenMemory = 16 * 131072"
  by (simp add: ztIdentityGenMemory_def)

lemma BigEndian_Uint64_take: "8 \<le> length b \<Longrightarrow> BigEndian_Uint64 b = BigEndian_Uint64 (take 8 b)"
  by (simp add: BigEndian_Uint64_def)

lemma BigEndian_Uint64_Inr: "8 \<le> length b \<Longrightarrow> \<exists>w. BigEndian_Uint64 b = Inr w"
  by (simp add: BigEndian_Uint64_def)

lemma mix_indices_read:
  assumes "i + 16 \<le> length gm"
  shows "\<exists>w1 w2. BigEndian_Uint64 (take 8 (drop i gm)) = Inr w1 \<and>
           BigEndian_Uint64 (take 8 (drop (i + 8) gm)) = Inr w2 \<and>
           mix_indices gm i =
             Inr (8 * (unat w1 mod 8), 8 * (unat w2 mod (ztIdentityGenMemory div 8)))"
proof -
  have l1: "8 \<le> length (drop i gm)" and l2: "8 \<le> length (drop (i + 8) gm)"
    using assms by simp_all
  obtain w1 where w1: "BigEndian_Uint64 (drop i gm) = Inr w1"
    using BigEndian_Uint64_Inr [OF l1] by blast
  obtain w2 where w2: "BigEndian_Uint64 (drop (i + 8) gm) = Inr w2"
    using BigEndian_Uint64_Inr [OF l2] by blast
  have "mix_indices gm i = Inr (unat ((w1 AND 7) * 8),
          unat ((w2 mod word_of_nat (ztIdentityGenMemory div 8)) * 8))"
    using assms w1 w2 by (simp add: mix_indices_def slice_from_def)
  then show ?thesis
    using w1 w2 BigEndian_Uint64_take [OF l1] BigEndian_Uint64_take [OF l2]
    by (simp add: idx1_val idx2_val)
qed

lemma swap8_Inr:
  assumes "idx2 + 8 \<le> length gmem" and "idx1 + 8 \<le> length seed"
  shows "swap8 gmem seed idx1 idx2 =
           Inr (store gmem idx2 (take 8 (drop idx1 seed)), store seed idx1 (take 8 (drop idx2 gmem)))"
  using assms by (simp add: swap8_def slice_Inr)

lemma mixing_total:
  "length (genmem st) = ztIdentityGenMemory \<Longrightarrow> length (s512 st) = 64 \<Longrightarrow> 16 dvd i \<Longrightarrow>
   \<exists>st'. mixing p k i st = Inr st' \<and> length (genmem st') = ztIdentityGenMemory \<and>
         length (s512 st') = 64 \<and>
         s20ctri st' = s20ctri st + word_of_nat ((ztIdentityGenMemory - i) div 16)"
proof (induction p k i st rule: mixing.induct)
  case (1 p k i st)
  show ?case
  proof (cases "i < ztIdentityGenMemory")
    case False
    then show ?thesis using "1.prems" by (simp add: mixing.simps)
  next
    case True
    from True "1.prems"(3) have le: "i + 16 \<le> ztIdentityGenMemory"
      unfolding mem_16 by (elim dvdE) auto
    have "i + 16 \<le> length (genmem st)" using le "1.prems"(1) by simp
    from mix_indices_read [OF this]
    obtain w1 w2 :: "64 word" where mi: "mix_indices (genmem st) i =
        Inr (8 * (unat w1 mod 8), 8 * (unat w2 mod (ztIdentityGenMemory div 8)))"
      by blast
    define idx1 where "idx1 = 8 * (unat w1 mod 8)"
    define idx2 where "idx2 = 8 * (unat w2 mod (ztIdentityGenMemory div 8))"
    have "unat w1 mod 8 < 8" by simp
    then have b1: "idx1 + 8 \<le> length (s512 st)"
      using "1.prems"(2) by (simp add: idx1_def)
    have "unat w2 mod (ztIdentityGenMemory div 8) < ztIdentityGenMemory div 8"
      by (simp add: ztIdentityGenMemory_def)
    then have b2: "idx2 + 8 \<le> length (genmem st)"
      using "1.prems"(1) by (simp add: idx2_def ztIdentityGenMemory_def)
    let ?g = "store (genmem st) idx2 (take 8 (drop idx1 (s512 st)))"
    let ?s = "store (s512 st) idx1 (take 8 (drop idx2 (genmem st)))"
    let ?ctr = "store (s20ctr st) 8 (LittleEndian_PutUint64 (s20ctri st))"
    let ?st = "\<lparr>genmem = ?g, s512 = XORKeyStream p ?s ?ctr k, s20ctr = ?ctr,
                s20ctri = s20ctri st + 1\<rparr>"
    have mi': "mix_indices (genmem st) i = Inr (idx1, idx2)"
      using mi by (simp add: idx1_def idx2_def)
    have sw: "swap8 (genmem st) (s512 st) idx1 idx2 = Inr (?g, ?s)"
      using swap8_Inr [OF b2 b1] .
    have unf: "mixing p k i st = mixing p k (i + 8 + 8) ?st"
      using True mi' sw by (subst mixing.simps) (simp add: Let_def)
    have lg: "length (genmem ?st) = ztIdentityGenMemory"
      using b1 b2 "1.prems" by (simp add: length_store)
    have ls: "length (s512 ?st) = 64"
      using b1 b2 "1.prems" by (simp add: length_store length_XORKeyStream)
    have d: "16 dvd i + 8 + 8" using "1.prems"(3) by (simp add: add.assoc)
    from "1.IH" [OF True mi' refl sw refl refl lg ls d]
    obtain st' where st': "mixing p k (i + 8 + 8) ?st = Inr st'"
      "length (genmem st') = ztIdentityGenMemory" "length (s512 st') = 64"
      "s20ctri st' = s20ctri ?st + word_of_nat ((ztIdentityGenMemory - (i + 8 + 8)) div 16)"
      by blast
    have "(ztIdentityGenMemory - i) div 16 = Suc ((ztIdentityGenMemory - (i + 8 + 8)) div 16)"
      using le le_div_geq [of 16 "ztIdentityGenMemory - i"] by (simp add: add.assoc)
    then have cnt: "s20ctri st' = s20ctri st + word_of_nat ((ztIdentityGenMemory - i) div 16)"
      using st'(4) by (simp add: add.assoc)
    show ?thesis using st' unf cnt by simp
  qed
qed

subsection \<open>The whole hash\<close>

lemma LittleEndian_PutUint64_0: "LittleEndian_PutUint64 0 = replicate 8 0"
  by (simp add: LittleEndian_PutUint64_def numeral_eq_Suc)

lemma hash_init_facts:
  assumes "hash_init p pk = (key, st)"
  shows "key = take 32 (seed_of p pk)"
    and "length (genmem st) = ztIdentityGenMemory"
    and "s512 st = seed_of p pk"
    and "s20ctr st = block_counter p pk 0"
    and "s20ctri st = 1"
    and "take 64 (genmem st) = XORKeyStream p (replicate 64 0) (block_counter p pk 0) key"
proof -
  let ?seed = "seed_of p pk"
  let ?ctr = "store (replicate 16 0) 0 (take 8 (drop 32 ?seed))"
  let ?g0 = "replicate ztIdentityGenMemory (0 :: byte)"
  have ls: "length ?seed = 64" by (simp add: seed_of_def)
  have k: "key = store (replicate 32 0) 0 (take 32 ?seed)"
    and st: "st = \<lparr>genmem = store ?g0 0 (XORKeyStream p (take 64 ?g0) ?ctr key),
           s512 = ?seed, s20ctr = ?ctr, s20ctri = 0 + 1\<rparr>"
    using assms by (auto simp: hash_init_def Let_def seed_of_def)
  show key: "key = take 32 ?seed" using k ls by (simp add: store_def)
  have t64: "take 64 ?g0 = replicate 64 0" by (simp add: ztIdentityGenMemory_def)
  have lx: "length (XORKeyStream p (take 64 ?g0) ?ctr key) = 64"
    by (simp add: length_XORKeyStream ztIdentityGenMemory_def)
  show "length (genmem st) = ztIdentityGenMemory"
    unfolding st using lx by (simp add: length_store ztIdentityGenMemory_def)
  show "s512 st = ?seed" unfolding st by simp
  show ctr: "s20ctr st = block_counter p pk 0"
    unfolding st using ls
    by (simp add: block_counter_def store_def LittleEndian_PutUint64_0)
  show "s20ctri st = 1" unfolding st by simp
  have "take 64 (genmem st) = XORKeyStream p (take 64 ?g0) ?ctr key"
    unfolding st using window_store_same [of 0 "XORKeyStream p (take 64 ?g0) ?ctr key" ?g0] lx
    by (simp add: ztIdentityGenMemory_def)
  then show "take 64 (genmem st) = XORKeyStream p (replicate 64 0) (block_counter p pk 0) key"
    using ctr t64 unfolding st by simp
qed

lemma length_block_counter: "length (block_counter p pk b) = 16"
  by (simp add: block_counter_def seed_of_def length_LittleEndian_PutUint64)

lemma hash_filled_facts:
  "\<exists>st. hash_filled p pk = Inr st \<and> length (genmem st) = ztIdentityGenMemory \<and>
     s512 st = seed_of p pk \<and> s20ctri st = 32768 \<and>
     take 64 (genmem st) =
       XORKeyStream p (replicate 64 0) (block_counter p pk 0) (take 32 (seed_of p pk))"
proof -
  obtain key st0 where i: "hash_init p pk = (key, st0)" by (cases "hash_init p pk")
  note f = hash_init_facts [OF i]
  have lc: "length (s20ctr st0) = 16" using f(4) by (simp add: length_block_counter)
  from fill_total [OF f(2) _ _ lc, of 64 p key]
  obtain st where st: "fill p key 64 st0 = Inr st" "length (genmem st) = ztIdentityGenMemory"
    "s512 st = s512 st0" "take 64 (genmem st) = take 64 (genmem st0)"
    "s20ctri st = s20ctri st0 + word_of_nat ((ztIdentityGenMemory - 64) div 64)"
    by auto
  have "s20ctri st = 32768" using st(5) f(5) by (simp add: ztIdentityGenMemory_def)
  then show ?thesis
    using i st f by (simp add: hash_filled_def)
qed


lemma hash_filled_blocks:
  assumes "hash_filled p pk = Inr st" and "1 \<le> b" and "b < ztIdentityGenMemory div 64"
  shows "take 64 (drop (64 * b) (genmem st)) =
     XORKeyStream p (take 64 (drop (64 * (b - 1)) (genmem st))) (block_counter p pk b)
       (take 32 (seed_of p pk))"
proof -
  obtain key st0 where i: "hash_init p pk = (key, st0)" by (cases "hash_init p pk")
  note f = hash_init_facts [OF i]
  have lc: "length (s20ctr st0) = 16" using f(4) by (simp add: length_block_counter)
  have fl: "fill p key 64 st0 = Inr st" using assms(1) i by (simp add: hash_filled_def)
  have b1: "64 \<le> 64 * b" using assms(2) by simp
  have b2: "64 * b < ztIdentityGenMemory" using assms(3) by (simp add: ztIdentityGenMemory_def)
  have c: "(1 :: 64 word) + word_of_nat (b - 1) = word_of_nat b"
    using assms(2) by (metis add.commute le_add_diff_inverse2 of_nat_1 of_nat_add)
  have t8: "take 8 (s20ctr st0) = take 8 (drop 32 (seed_of p pk))"
    using f(4) by (simp add: block_counter_def seed_of_def)
  from fill_blocks [OF f(2) _ _ lc fl b1 b2]
  show ?thesis using f(1) f(5) c t8 by (simp add: block_counter_def)
qed

text \<open>
  Claim C4. The buffer is filled strictly sequentially: after the fill loop the buffer has
  2,097,152 bytes, block 0 (bytes 0 to 63) is the keystream block of counter 0 applied to
  the all-zero block, and every block \<open>b\<close> from 1 to 32,767 is the keystream block of counter
  \<open>b\<close> applied to block \<open>b - 1\<close>.
\<close>

theorem fill_strictly_sequential:
  "\<exists>st. hash_filled p pk = Inr st \<and> length (genmem st) = ztIdentityGenMemory \<and>
     take 64 (genmem st) =
       XORKeyStream p (replicate 64 0) (block_counter p pk 0) (take 32 (seed_of p pk)) \<and>
     (\<forall>b. 1 \<le> b \<and> b < ztIdentityGenMemory div 64 \<longrightarrow>
        take 64 (drop (64 * b) (genmem st)) =
          XORKeyStream p (take 64 (drop (64 * (b - 1)) (genmem st))) (block_counter p pk b)
            (take 32 (seed_of p pk)))"
proof -
  from hash_filled_facts [of p pk] obtain st where st: "hash_filled p pk = Inr st"
    "length (genmem st) = ztIdentityGenMemory"
    "take 64 (genmem st) =
       XORKeyStream p (replicate 64 0) (block_counter p pk 0) (take 32 (seed_of p pk))"
    by blast
  show ?thesis using st hash_filled_blocks [OF st(1)] by blast
qed

theorem fill_strictly_sequential_witness:
  "(1 :: nat) \<le> 1 \<and> (1 :: nat) < ztIdentityGenMemory div 64 \<and>
   (\<exists>st. hash_filled test_primitives [] = Inr st \<and>
      take 64 (drop (64 * 1) (genmem st)) =
        XORKeyStream test_primitives (take 64 (drop (64 * (1 - 1)) (genmem st)))
          (block_counter test_primitives [] 1) (take 32 (seed_of test_primitives [])))"
proof -
  have h: "(1 :: nat) \<le> 1 \<and> (1 :: nat) < ztIdentityGenMemory div 64"
    by (simp add: ztIdentityGenMemory_def)
  from fill_strictly_sequential [of test_primitives "[]"]
  obtain st where st: "hash_filled test_primitives [] = Inr st"
    "\<forall>b. 1 \<le> b \<and> b < ztIdentityGenMemory div 64 \<longrightarrow>
        take 64 (drop (64 * b) (genmem st)) =
          XORKeyStream test_primitives (take 64 (drop (64 * (b - 1)) (genmem st)))
            (block_counter test_primitives [] b) (take 32 (seed_of test_primitives []))"
    by blast
  from st(2) h have "take 64 (drop (64 * 1) (genmem st)) =
        XORKeyStream test_primitives (take 64 (drop (64 * (1 - 1)) (genmem st)))
          (block_counter test_primitives [] 1) (take 32 (seed_of test_primitives []))"
    by blast
  with st(1) h show ?thesis by blast
qed

lemma hash_mixed_facts:
  "\<exists>st. hash_mixed p pk = Inr st \<and> length (s512 st) = 64 \<and> s20ctri st = 32768 + 131072"
proof -
  from hash_filled_facts [of p pk] obtain st1 where st1: "hash_filled p pk = Inr st1"
    "length (genmem st1) = ztIdentityGenMemory" "s512 st1 = seed_of p pk" "s20ctri st1 = 32768"
    by blast
  have ls: "length (s512 st1) = 64" using st1(3) by (simp add: seed_of_def)
  from mixing_total [OF st1(2) ls, of 0 p "fst (hash_init p pk)"]
  obtain st where st: "mixing p (fst (hash_init p pk)) 0 st1 = Inr st" "length (s512 st) = 64"
    "s20ctri st = s20ctri st1 + word_of_nat ((ztIdentityGenMemory - 0) div 16)"
    by auto
  have "s20ctri st = 32768 + 131072" using st(3) st1(4) by (simp add: ztIdentityGenMemory_def)
  then show ?thesis using st st1 by (simp add: hash_mixed_def)
qed

lemma hash_returns:
  "\<exists>d. computeZeroTierIdentityMemoryHardHash p x = Inr d \<and> length d = 64"
  using hash_mixed_facts [of p x] by (auto simp: computeZeroTierIdentityMemoryHardHash_def)

text \<open>
  Claim C8. The hash is a function of its input (and of the primitives) alone: it takes no
  random stream and no state, and on every input it returns, without a panic, one digest of
  64 bytes.
\<close>

theorem hash_deterministic:
  "\<exists>d. computeZeroTierIdentityMemoryHardHash p x = Inr d \<and> length d = 64"
  by (rule hash_returns)

lemma run_counts:
  "fill_keystream_blocks p pk = Some 32768 \<and> mixing_reencryptions p pk = Some 131072"
proof -
  from hash_filled_facts [of p pk] obtain st1 where st1: "hash_filled p pk = Inr st1"
    "s20ctri st1 = 32768" by blast
  from hash_mixed_facts [of p pk] obtain st2 where st2: "hash_mixed p pk = Inr st2"
    "s20ctri st2 = 32768 + 131072" by blast
  show ?thesis using st1 st2
    by (simp add: fill_keystream_blocks_def mixing_reencryptions_def)
qed

lemma mixing_step:
  assumes "length (genmem st) = ztIdentityGenMemory" and "length (s512 st) = 64"
    and "16 dvd i" and "i < ztIdentityGenMemory"
  shows "\<exists>w1 w2 idx1 idx2.
      BigEndian_Uint64 (take 8 (drop i (genmem st))) = Inr w1 \<and>
      BigEndian_Uint64 (take 8 (drop (i + 8) (genmem st))) = Inr w2 \<and>
      idx1 = 8 * (unat w1 mod 8) \<and> idx2 = 8 * (unat w2 mod (ztIdentityGenMemory div 8)) \<and>
      i + 16 \<le> ztIdentityGenMemory \<and> idx1 + 8 \<le> 64 \<and> idx2 + 8 \<le> ztIdentityGenMemory \<and>
      mix_indices (genmem st) i = Inr (idx1, idx2) \<and>
      mixing p k i st =
        mixing p k (i + 16)
          \<lparr>genmem = store (genmem st) idx2 (take 8 (drop idx1 (s512 st))),
           s512 = XORKeyStream p (store (s512 st) idx1 (take 8 (drop idx2 (genmem st))))
                    (store (s20ctr st) 8 (LittleEndian_PutUint64 (s20ctri st))) k,
           s20ctr = store (s20ctr st) 8 (LittleEndian_PutUint64 (s20ctri st)),
           s20ctri = s20ctri st + 1\<rparr>"
proof -
  from assms(3,4) have le: "i + 16 \<le> ztIdentityGenMemory"
    unfolding mem_16 by (elim dvdE) auto
  then have "i + 16 \<le> length (genmem st)" using assms(1) by simp
  from mix_indices_read [OF this]
  obtain w1 w2 :: "64 word" where
    w1: "BigEndian_Uint64 (take 8 (drop i (genmem st))) = Inr w1" and
    w2: "BigEndian_Uint64 (take 8 (drop (i + 8) (genmem st))) = Inr w2" and
    mi: "mix_indices (genmem st) i =
        Inr (8 * (unat w1 mod 8), 8 * (unat w2 mod (ztIdentityGenMemory div 8)))"
    by blast
  define idx1 where "idx1 = 8 * (unat w1 mod 8)"
  define idx2 where "idx2 = 8 * (unat w2 mod (ztIdentityGenMemory div 8))"
  have "unat w1 mod 8 < 8" by simp
  then have b1: "idx1 + 8 \<le> 64" by (simp add: idx1_def)
  have "unat w2 mod (ztIdentityGenMemory div 8) < ztIdentityGenMemory div 8"
    by (simp add: ztIdentityGenMemory_def)
  then have b2: "idx2 + 8 \<le> ztIdentityGenMemory"
    by (simp add: idx2_def ztIdentityGenMemory_def)
  have mi': "mix_indices (genmem st) i = Inr (idx1, idx2)"
    using mi by (simp add: idx1_def idx2_def)
  have sw: "swap8 (genmem st) (s512 st) idx1 idx2 =
      Inr (store (genmem st) idx2 (take 8 (drop idx1 (s512 st))),
           store (s512 st) idx1 (take 8 (drop idx2 (genmem st))))"
    using swap8_Inr [of idx2 "genmem st" idx1 "s512 st"] b1 b2 assms(1,2) by simp
  have unf: "mixing p k i st =
        mixing p k (i + 16)
          \<lparr>genmem = store (genmem st) idx2 (take 8 (drop idx1 (s512 st))),
           s512 = XORKeyStream p (store (s512 st) idx1 (take 8 (drop idx2 (genmem st))))
                    (store (s20ctr st) 8 (LittleEndian_PutUint64 (s20ctri st))) k,
           s20ctr = store (s20ctr st) 8 (LittleEndian_PutUint64 (s20ctri st)),
           s20ctri = s20ctri st + 1\<rparr>"
    using assms(4) mi' sw by (subst mixing.simps) (simp add: Let_def add.assoc)
  show ?thesis
    using w1 w2 le b1 b2 mi' unf idx1_def idx2_def by blast
qed

lemma mixing_done: "\<not> i < ztIdentityGenMemory \<Longrightarrow> mixing p k i st = Inr st"
  by (simp add: mixing.simps)

lemma hash_mixed_start:
  "\<exists>st1. hash_filled p pk = Inr st1 \<and> length (genmem st1) = ztIdentityGenMemory \<and>
      length (s512 st1) = 64 \<and> hash_mixed p pk = mixing p (fst (hash_init p pk)) 0 st1"
proof -
  from hash_filled_facts [of p pk] obtain st1 where st1: "hash_filled p pk = Inr st1"
    "length (genmem st1) = ztIdentityGenMemory" "s512 st1 = seed_of p pk"
    by blast
  have "length (s512 st1) = 64" using st1(3) by (simp add: seed_of_def)
  then show ?thesis using st1 by (simp add: hash_mixed_def)
qed

lemma mixing_iteration:
  assumes "length (genmem st) = ztIdentityGenMemory \<and> length (s512 st) = 64 \<and>
     16 dvd i \<and> i < ztIdentityGenMemory"
  shows "\<exists>idx1 idx2 gm' seed'.
      mix_indices (genmem st) i = Inr (idx1, idx2) \<and>
      swap8 (genmem st) (s512 st) idx1 idx2 = Inr (gm', seed') \<and>
      gm' = store (genmem st) idx2 (take 8 (drop idx1 (s512 st))) \<and>
      seed' = store (s512 st) idx1 (take 8 (drop idx2 (genmem st))) \<and>
      mixing p k i st =
        mixing p k (i + 16)
          \<lparr>genmem = gm',
           s512 = XORKeyStream p seed'
                    (store (s20ctr st) 8 (LittleEndian_PutUint64 (s20ctri st))) k,
           s20ctr = store (s20ctr st) 8 (LittleEndian_PutUint64 (s20ctri st)),
           s20ctri = s20ctri st + 1\<rparr>"
proof -
  from assms have a: "length (genmem st) = ztIdentityGenMemory" "length (s512 st) = 64"
    "16 dvd i" "i < ztIdentityGenMemory" by blast+
  from mixing_step [OF a, of p k] obtain idx1 idx2 where
    b1: "idx1 + 8 \<le> 64" and b2: "idx2 + 8 \<le> ztIdentityGenMemory" and
    mi: "mix_indices (genmem st) i = Inr (idx1, idx2)" and
    st: "mixing p k i st =
        mixing p k (i + 16)
          \<lparr>genmem = store (genmem st) idx2 (take 8 (drop idx1 (s512 st))),
           s512 = XORKeyStream p (store (s512 st) idx1 (take 8 (drop idx2 (genmem st))))
                    (store (s20ctr st) 8 (LittleEndian_PutUint64 (s20ctri st))) k,
           s20ctr = store (s20ctr st) 8 (LittleEndian_PutUint64 (s20ctri st)),
           s20ctri = s20ctri st + 1\<rparr>"
    by blast
  have sw: "swap8 (genmem st) (s512 st) idx1 idx2 =
      Inr (store (genmem st) idx2 (take 8 (drop idx1 (s512 st))),
           store (s512 st) idx1 (take 8 (drop idx2 (genmem st))))"
    using swap8_Inr [of idx2 "genmem st" idx1 "s512 st"] b1 b2 a(1,2) by simp
  show ?thesis using mi sw st by blast
qed

text \<open>
  Claim C5, as amended. The fill phase uses 32,768 keystream blocks. The mixing pass starts
  at \<open>i = 0\<close> on the filled buffer and the seed; every iteration (\<open>i\<close> a multiple of 16 below
  M) reads its two indices, swaps the two windows of 8 bytes once, re-encrypts the whole
  seed once with the next keystream block, increments the counter and goes on at \<open>i + 16\<close>;
  the pass ends at \<open>i = M\<close>. It re-encrypts the seed 131,072 times, which is M/16 and not
  M/8.
\<close>

theorem mixing_pass_count:
  "fill_keystream_blocks p pk = Some 32768 \<and>
   mixing_reencryptions p pk = Some (ztIdentityGenMemory div 16) \<and>
   ztIdentityGenMemory div 16 = 131072 \<and>
   (\<exists>st1. hash_filled p pk = Inr st1 \<and> length (genmem st1) = ztIdentityGenMemory \<and>
      length (s512 st1) = 64 \<and> hash_mixed p pk = mixing p (fst (hash_init p pk)) 0 st1) \<and>
   (\<forall>k i (st :: hash_state).
      length (genmem st) = ztIdentityGenMemory \<and> length (s512 st) = 64 \<and>
      16 dvd i \<and> i < ztIdentityGenMemory \<longrightarrow>
      (\<exists>idx1 idx2 gm' seed'.
         mix_indices (genmem st) i = Inr (idx1, idx2) \<and>
         swap8 (genmem st) (s512 st) idx1 idx2 = Inr (gm', seed') \<and>
         gm' = store (genmem st) idx2 (take 8 (drop idx1 (s512 st))) \<and>
         seed' = store (s512 st) idx1 (take 8 (drop idx2 (genmem st))) \<and>
         mixing p k i st =
           mixing p k (i + 16)
             \<lparr>genmem = gm',
              s512 = XORKeyStream p seed'
                       (store (s20ctr st) 8 (LittleEndian_PutUint64 (s20ctri st))) k,
              s20ctr = store (s20ctr st) 8 (LittleEndian_PutUint64 (s20ctri st)),
              s20ctri = s20ctri st + 1\<rparr>)) \<and>
   (\<forall>k st. mixing p k ztIdentityGenMemory st = Inr st)"
proof (intro conjI allI impI)
  show "fill_keystream_blocks p pk = Some 32768"
    using run_counts [of p pk] by simp
  show "mixing_reencryptions p pk = Some (ztIdentityGenMemory div 16)"
    using run_counts [of p pk] by (simp add: ztIdentityGenMemory_def)
  show "ztIdentityGenMemory div 16 = 131072" by (simp add: ztIdentityGenMemory_def)
  show "\<exists>st1. hash_filled p pk = Inr st1 \<and> length (genmem st1) = ztIdentityGenMemory \<and>
      length (s512 st1) = 64 \<and> hash_mixed p pk = mixing p (fst (hash_init p pk)) 0 st1"
    by (rule hash_mixed_start)
  show "mixing p k ztIdentityGenMemory st = Inr st" for k st
    by (rule mixing_done) simp
next
  fix k i and st :: hash_state
  assume "length (genmem st) = ztIdentityGenMemory \<and> length (s512 st) = 64 \<and>
      16 dvd i \<and> i < ztIdentityGenMemory"
  then show "\<exists>idx1 idx2 gm' seed'.
         mix_indices (genmem st) i = Inr (idx1, idx2) \<and>
         swap8 (genmem st) (s512 st) idx1 idx2 = Inr (gm', seed') \<and>
         gm' = store (genmem st) idx2 (take 8 (drop idx1 (s512 st))) \<and>
         seed' = store (s512 st) idx1 (take 8 (drop idx2 (genmem st))) \<and>
         mixing p k i st =
           mixing p k (i + 16)
             \<lparr>genmem = gm',
              s512 = XORKeyStream p seed'
                       (store (s20ctr st) 8 (LittleEndian_PutUint64 (s20ctri st))) k,
              s20ctr = store (s20ctr st) 8 (LittleEndian_PutUint64 (s20ctri st)),
              s20ctri = s20ctri st + 1\<rparr>"
    by (rule mixing_iteration)
qed

theorem mixing_pass_count_witness:
  "length (genmem \<lparr>genmem = replicate ztIdentityGenMemory 0, s512 = replicate 64 0,
                   s20ctr = replicate 16 0, s20ctri = 0\<rparr>) = ztIdentityGenMemory \<and>
   length (s512 \<lparr>genmem = replicate ztIdentityGenMemory 0, s512 = replicate 64 0,
                 s20ctr = replicate 16 0, s20ctri = 0\<rparr>) = 64 \<and>
   16 dvd (0 :: nat) \<and> 0 < ztIdentityGenMemory \<and>
   (\<exists>idx1 idx2 gm' seed'.
      mix_indices (replicate ztIdentityGenMemory 0) 0 = Inr (idx1, idx2) \<and>
      swap8 (replicate ztIdentityGenMemory 0) (replicate 64 0) idx1 idx2 = Inr (gm', seed') \<and>
      mixing test_primitives [] 0
          \<lparr>genmem = replicate ztIdentityGenMemory 0, s512 = replicate 64 0,
           s20ctr = replicate 16 0, s20ctri = 0\<rparr> =
        mixing test_primitives [] (0 + 16)
          \<lparr>genmem = gm',
           s512 = XORKeyStream test_primitives seed'
                    (store (replicate 16 0) 8 (LittleEndian_PutUint64 0)) [],
           s20ctr = store (replicate 16 0) 8 (LittleEndian_PutUint64 0),
           s20ctri = 0 + 1\<rparr>)"
proof -
  let ?st = "\<lparr>genmem = replicate ztIdentityGenMemory (0 :: byte), s512 = replicate 64 (0 :: byte),
              s20ctr = replicate 16 (0 :: byte), s20ctri = 0 :: 64 word\<rparr>"
  have h: "length (genmem ?st) = ztIdentityGenMemory \<and> length (s512 ?st) = 64 \<and>
      16 dvd (0 :: nat) \<and> 0 < ztIdentityGenMemory"
    by (simp add: ztIdentityGenMemory_def)
  from mixing_pass_count [of test_primitives "[]"]
  have "\<forall>k i (st :: hash_state).
      length (genmem st) = ztIdentityGenMemory \<and> length (s512 st) = 64 \<and>
      16 dvd i \<and> i < ztIdentityGenMemory \<longrightarrow>
      (\<exists>idx1 idx2 gm' seed'.
         mix_indices (genmem st) i = Inr (idx1, idx2) \<and>
         swap8 (genmem st) (s512 st) idx1 idx2 = Inr (gm', seed') \<and>
         gm' = store (genmem st) idx2 (take 8 (drop idx1 (s512 st))) \<and>
         seed' = store (s512 st) idx1 (take 8 (drop idx2 (genmem st))) \<and>
         mixing test_primitives k i st =
           mixing test_primitives k (i + 16)
             \<lparr>genmem = gm',
              s512 = XORKeyStream test_primitives seed'
                       (store (s20ctr st) 8 (LittleEndian_PutUint64 (s20ctri st))) k,
              s20ctr = store (s20ctr st) 8 (LittleEndian_PutUint64 (s20ctri st)),
              s20ctri = s20ctri st + 1\<rparr>)"
    by blast
  from this [rule_format, OF h, of "[]"] obtain idx1 idx2 gm' seed' where
    "mix_indices (genmem ?st) 0 = Inr (idx1, idx2)"
    "swap8 (genmem ?st) (s512 ?st) idx1 idx2 = Inr (gm', seed')"
    "mixing test_primitives [] 0 ?st =
           mixing test_primitives [] (0 + 16)
             \<lparr>genmem = gm',
              s512 = XORKeyStream test_primitives seed'
                       (store (s20ctr ?st) 8 (LittleEndian_PutUint64 (s20ctri ?st))) [],
              s20ctr = store (s20ctr ?st) 8 (LittleEndian_PutUint64 (s20ctri ?st)),
              s20ctri = s20ctri ?st + 1\<rparr>"
    by blast
  then have "\<exists>idx1 idx2 gm' seed'.
      mix_indices (replicate ztIdentityGenMemory 0) 0 = Inr (idx1, idx2) \<and>
      swap8 (replicate ztIdentityGenMemory 0) (replicate 64 0) idx1 idx2 = Inr (gm', seed') \<and>
      mixing test_primitives [] 0 ?st =
        mixing test_primitives [] (0 + 16)
          \<lparr>genmem = gm',
           s512 = XORKeyStream test_primitives seed'
                    (store (replicate 16 0) 8 (LittleEndian_PutUint64 0)) [],
           s20ctr = store (replicate 16 0) 8 (LittleEndian_PutUint64 0),
           s20ctri = 0 + 1\<rparr>"
    by simp
  with h show ?thesis by simp
qed

text \<open>
  Claim C5 as stated fails: on the test primitives and the empty key the mixing pass
  re-encrypts the seed 131,072 times, not M/8 = 262,144 times.
\<close>

theorem mixing_pass_count_counterexample:
  "mixing_reencryptions test_primitives [] \<noteq> Some (ztIdentityGenMemory div 8)"
  using run_counts [of test_primitives "[]"] by (simp add: ztIdentityGenMemory_def)

text \<open>
  Claim C10. No access of the mixing pass is out of bounds: on every input the pass ends
  without a panic; the last iteration reads its second integer at M - 8; and in every
  iteration (the loop variable a multiple of 16 below M, any buffer of M bytes) the second
  read starts at most at M - 8, \<open>idx1\<close> is a multiple of 8 at most 56, \<open>idx2\<close> a multiple of 8
  at most M - 8, and the swap of the two 8-byte windows stays inside the 64-byte seed and
  the M-byte buffer.
\<close>

theorem mixing_accesses_in_bounds:
  "(\<exists>st. hash_mixed p pk = Inr st) \<and>
   (\<exists>i. 16 dvd i \<and> i < ztIdentityGenMemory \<and> i + 8 = ztIdentityGenMemory - 8) \<and>
   (\<forall>gm i. length gm = ztIdentityGenMemory \<and> 16 dvd i \<and> i < ztIdentityGenMemory \<longrightarrow>
      i + 8 \<le> ztIdentityGenMemory - 8 \<and>
      (\<exists>idx1 idx2. mix_indices gm i = Inr (idx1, idx2) \<and>
         8 dvd idx1 \<and> idx1 \<le> 56 \<and> 8 dvd idx2 \<and> idx2 \<le> ztIdentityGenMemory - 8 \<and>
         (\<forall>seed. length seed = 64 \<longrightarrow>
            (\<exists>gm' seed'. swap8 gm seed idx1 idx2 = Inr (gm', seed') \<and>
               length gm' = ztIdentityGenMemory \<and> length seed' = 64))))"
proof (intro conjI allI impI)
  show "\<exists>st. hash_mixed p pk = Inr st" using hash_mixed_facts [of p pk] by blast
  show "\<exists>i. 16 dvd i \<and> i < ztIdentityGenMemory \<and> i + 8 = ztIdentityGenMemory - 8"
    by (rule exI [of _ "ztIdentityGenMemory - 16"]) (simp add: ztIdentityGenMemory_def)
next
  fix gm :: "byte list" and i
  assume a: "length gm = ztIdentityGenMemory \<and> 16 dvd i \<and> i < ztIdentityGenMemory"
  then have le: "i + 16 \<le> ztIdentityGenMemory"
    unfolding mem_16 by (elim conjE dvdE) auto
  then show "i + 8 \<le> ztIdentityGenMemory - 8" by simp
  from le a have "i + 16 \<le> length gm" by simp
  from mix_indices_read [OF this]
  obtain w1 w2 :: "64 word" where
    mi: "mix_indices gm i =
        Inr (8 * (unat w1 mod 8), 8 * (unat w2 mod (ztIdentityGenMemory div 8)))"
    by blast
  define idx1 where "idx1 = 8 * (unat w1 mod 8)"
  define idx2 where "idx2 = 8 * (unat w2 mod (ztIdentityGenMemory div 8))"
  have "unat w1 mod 8 < 8" by simp
  then have b1: "idx1 \<le> 56" by (simp add: idx1_def)
  have "unat w2 mod (ztIdentityGenMemory div 8) < ztIdentityGenMemory div 8"
    by (simp add: ztIdentityGenMemory_def)
  then have b2: "idx2 \<le> ztIdentityGenMemory - 8"
    by (simp add: idx2_def ztIdentityGenMemory_def)
  have m8: "8 \<le> ztIdentityGenMemory" by (simp add: ztIdentityGenMemory_def)
  have sw: "\<exists>gm' seed'. swap8 gm seed idx1 idx2 = Inr (gm', seed') \<and>
               length gm' = ztIdentityGenMemory \<and> length seed' = 64"
    if "length seed = 64" for seed :: "byte list"
  proof -
    have c2: "idx2 + 8 \<le> length gm" using b2 m8 a by simp
    have c1: "idx1 + 8 \<le> length seed" using b1 that by simp
    show ?thesis
      using swap8_Inr [OF c2 c1] c1 c2 a that by (simp add: length_store)
  qed
  show "\<exists>idx1 idx2. mix_indices gm i = Inr (idx1, idx2) \<and>
         8 dvd idx1 \<and> idx1 \<le> 56 \<and> 8 dvd idx2 \<and> idx2 \<le> ztIdentityGenMemory - 8 \<and>
         (\<forall>seed. length seed = 64 \<longrightarrow>
            (\<exists>gm' seed'. swap8 gm seed idx1 idx2 = Inr (gm', seed') \<and>
               length gm' = ztIdentityGenMemory \<and> length seed' = 64))"
    using mi b1 b2 sw unfolding idx1_def [symmetric] idx2_def [symmetric]
    by (intro exI [of _ idx1] exI [of _ idx2]) (simp add: idx1_def idx2_def)
qed

theorem mixing_accesses_in_bounds_witness:
  "length (replicate ztIdentityGenMemory (0 :: byte)) = ztIdentityGenMemory \<and>
   16 dvd (0 :: nat) \<and> 0 < ztIdentityGenMemory \<and> length (replicate 64 (0 :: byte)) = 64 \<and>
   (\<exists>idx1 idx2. mix_indices (replicate ztIdentityGenMemory 0) 0 = Inr (idx1, idx2) \<and>
      idx1 \<le> 56 \<and> idx2 \<le> ztIdentityGenMemory - 8 \<and>
      (\<exists>gm' seed'. swap8 (replicate ztIdentityGenMemory 0) (replicate 64 0) idx1 idx2 =
         Inr (gm', seed') \<and> length gm' = ztIdentityGenMemory \<and> length seed' = 64))"
proof -
  have h: "length (replicate ztIdentityGenMemory (0 :: byte)) = ztIdentityGenMemory \<and>
      16 dvd (0 :: nat) \<and> 0 < ztIdentityGenMemory"
    by (simp add: ztIdentityGenMemory_def)
  have h2: "length (replicate 64 (0 :: byte)) = 64" by simp
  from mixing_accesses_in_bounds [of test_primitives "[]"]
  have "\<forall>gm i. length gm = ztIdentityGenMemory \<and> 16 dvd i \<and> i < ztIdentityGenMemory \<longrightarrow>
      i + 8 \<le> ztIdentityGenMemory - 8 \<and>
      (\<exists>idx1 idx2. mix_indices gm i = Inr (idx1, idx2) \<and>
         8 dvd idx1 \<and> idx1 \<le> 56 \<and> 8 dvd idx2 \<and> idx2 \<le> ztIdentityGenMemory - 8 \<and>
         (\<forall>seed. length seed = 64 \<longrightarrow>
            (\<exists>gm' seed'. swap8 gm seed idx1 idx2 = Inr (gm', seed') \<and>
               length gm' = ztIdentityGenMemory \<and> length seed' = 64)))"
    by blast
  from this [rule_format, OF h] obtain idx1 idx2 where
    i: "mix_indices (replicate ztIdentityGenMemory 0) 0 = Inr (idx1, idx2)"
      "idx1 \<le> 56" "idx2 \<le> ztIdentityGenMemory - 8" and
    s: "\<forall>seed. length seed = 64 \<longrightarrow>
            (\<exists>gm' seed'. swap8 (replicate ztIdentityGenMemory 0) seed idx1 idx2 = Inr (gm', seed') \<and>
               length gm' = ztIdentityGenMemory \<and> length seed' = 64)"
    by blast
  from s [rule_format, OF h2] i h h2 show ?thesis by blast
qed

subsection \<open>Runs on a zero keystream\<close>

lemma XORKeyStream_zero:
  assumes "\<And>key ctr j. salsa_keystream p key ctr j = 0"
  shows "XORKeyStream p inp ctr key = inp"
  by (simp add: XORKeyStream_def assms map_nth)

lemma store_zero_window:
  assumes "i + n \<le> m"
  shows "store (replicate m (0 :: byte)) i (replicate n 0) = replicate m 0"
proof -
  have "replicate i (0 :: byte) @ replicate n 0 @ replicate (m - (i + n)) 0 = replicate (i + n + (m - (i + n))) 0"
    by (simp only: replicate_add append_assoc)
  then show ?thesis using assms by (simp add: store_def)
qed

lemma fill_zero:
  "\<forall>key ctr j. salsa_keystream p key ctr j = 0 \<Longrightarrow>
   genmem st = replicate ztIdentityGenMemory 0 \<Longrightarrow> 64 dvd i \<Longrightarrow> 64 \<le> i \<Longrightarrow>
   \<exists>st'. fill p k i st = Inr st' \<and> genmem st' = replicate ztIdentityGenMemory 0 \<and>
         s512 st' = s512 st"
proof (induction p k i st rule: fill.induct)
  case (1 p k i st)
  have ks: "\<And>key ctr j. salsa_keystream p key ctr j = 0" using "1.prems"(1) by blast
  note prems = "1.prems"(2-)
  show ?case
  proof (cases "i < ztIdentityGenMemory")
    case False
    then show ?thesis using prems by (simp add: fill.simps)
  next
    case True
    from True prems(2) have le: "i + 64 \<le> ztIdentityGenMemory"
      unfolding mem_64 by (elim dvdE) auto
    let ?ctr = "store (s20ctr st) 8 (LittleEndian_PutUint64 (s20ctri st))"
    let ?inp = "take 64 (drop (i - 64) (genmem st))"
    let ?st = "st\<lparr>genmem := store (genmem st) i (XORKeyStream p ?inp ?ctr k),
                  s20ctr := ?ctr, s20ctri := s20ctri st + 1\<rparr>"
    have inp: "?inp = replicate 64 0" using le prems by simp
    have s1: "slice (genmem st) i (i + 64) = Inr (take 64 (drop i (genmem st)))"
      using le prems by (simp add: slice_Inr)
    have s2: "slice (genmem st) (i - 64) i = Inr ?inp"
      using le prems by (simp add: slice_Inr)
    have unf: "fill p k i st = fill p k (i + 64) ?st"
      using True le prems by (subst fill.simps) (simp add: slice_Inr Let_def)
    have g: "genmem ?st = replicate ztIdentityGenMemory 0"
      using prems(1) inp le
      by (simp add: XORKeyStream_zero [OF ks] store_zero_window)
    have d: "64 dvd i + 64" using prems by simp
    from "1.IH" [OF True refl s1 _ s2 "1.prems"(1) g d] prems
    show ?thesis using unf by simp
  qed
qed

lemma BigEndian_Uint64_zero: "BigEndian_Uint64 (replicate 8 0) = Inr 0"
  by (simp add: BigEndian_Uint64_def)

lemma store_same_window:
  "lo + n \<le> length xs \<Longrightarrow> store xs lo (take n (drop lo xs)) = xs"
  by (simp add: store_def) (metis add.commute append_take_drop_id drop_drop)

lemma mixing_zero:
  "\<forall>key ctr j. salsa_keystream p key ctr j = 0 \<Longrightarrow>
   genmem st = replicate ztIdentityGenMemory 0 \<Longrightarrow> length (s512 st) = 64 \<Longrightarrow>
   take 8 (s512 st) = replicate 8 0 \<Longrightarrow> 16 dvd i \<Longrightarrow>
   \<exists>st'. mixing p k i st = Inr st' \<and> s512 st' = s512 st"
proof (induction p k i st rule: mixing.induct)
  case (1 p k i st)
  have ks: "\<And>key ctr j. salsa_keystream p key ctr j = 0" using "1.prems"(1) by blast
  note prems = "1.prems"(2-)
  show ?case
  proof (cases "i < ztIdentityGenMemory")
    case False
    then show ?thesis by (simp add: mixing.simps)
  next
    case True
    have lg: "length (genmem st) = ztIdentityGenMemory" using prems(1) by simp
    from True prems(4) have le: "i + 16 \<le> ztIdentityGenMemory"
      unfolding mem_16 by (elim dvdE) auto
    have r1: "take 8 (drop i (genmem st)) = replicate 8 0"
      and r2: "take 8 (drop (i + 8) (genmem st)) = replicate 8 0"
      using le prems(1) by simp_all
    from mix_indices_read [of i "genmem st"] le lg
    have mi: "mix_indices (genmem st) i = Inr (0, 0)"
      by (simp add: r1 r2 BigEndian_Uint64_zero)
    have m8: "8 \<le> ztIdentityGenMemory" by (simp add: ztIdentityGenMemory_def)
    have g': "store (genmem st) 0 (take 8 (drop 0 (s512 st))) = genmem st"
      using prems(1,3) m8 store_zero_window [of 0 8 ztIdentityGenMemory] by simp
    have "store (s512 st) 0 (take 8 (drop 0 (genmem st))) = store (s512 st) 0 (take 8 (drop 0 (s512 st)))"
      using prems(1,3) m8 by simp
    also have "\<dots> = s512 st"
      using prems(2) by (intro store_same_window) simp
    finally have s': "store (s512 st) 0 (take 8 (drop 0 (genmem st))) = s512 st" .
    have sw: "swap8 (genmem st) (s512 st) 0 0 = Inr (genmem st, s512 st)"
      using swap8_Inr [of 0 "genmem st" 0 "s512 st"] lg m8 prems(2) g' s' by simp
    let ?ctr = "store (s20ctr st) 8 (LittleEndian_PutUint64 (s20ctri st))"
    let ?st = "\<lparr>genmem = genmem st, s512 = XORKeyStream p (s512 st) ?ctr k, s20ctr = ?ctr,
                s20ctri = s20ctri st + 1\<rparr>"
    have unf: "mixing p k i st = mixing p k (i + 8 + 8) ?st"
      using True mi sw by (subst mixing.simps) (simp add: Let_def)
    have x: "XORKeyStream p (s512 st) ?ctr k = s512 st" by (rule XORKeyStream_zero [OF ks])
    have d: "16 dvd i + 8 + 8" using prems(4) by (simp add: add.assoc)
    from "1.IH" [OF True mi refl sw refl refl "1.prems"(1) _ _ _ d] prems x
    show ?thesis using unf by simp
  qed
qed

lemma hash_zero_keystream:
  assumes ks: "\<And>key ctr j. salsa_keystream p key ctr j = 0"
    and z: "take 8 (seed_of p pk) = replicate 8 0"
  shows "computeZeroTierIdentityMemoryHardHash p pk = Inr (seed_of p pk)"
proof -
  obtain key st0 where i: "hash_init p pk = (key, st0)" by (cases "hash_init p pk")
  note f = hash_init_facts [OF i]
  have g0: "genmem st0 = replicate ztIdentityGenMemory 0"
  proof -
    have "genmem st0 = store (replicate ztIdentityGenMemory 0) 0
        (XORKeyStream p (take 64 (replicate ztIdentityGenMemory 0))
           (store (replicate 16 0) 0 (take 8 (drop 32 (map (sha512_Sum512 p pk) [0..<64]))))
           key)"
      using i by (auto simp: hash_init_def Let_def)
    also have "\<dots> = replicate ztIdentityGenMemory 0"
      using store_zero_window [of 0 64 ztIdentityGenMemory]
      by (simp add: XORKeyStream_zero [OF ks]) (simp add: ztIdentityGenMemory_def)
    finally show ?thesis .
  qed
  have ks': "\<forall>key ctr j. salsa_keystream p key ctr j = 0" using ks by blast
  from fill_zero [OF ks' g0, of 64 key]
  obtain st1 where st1: "fill p key 64 st0 = Inr st1"
    "genmem st1 = replicate ztIdentityGenMemory 0" "s512 st1 = s512 st0" by auto
  have l: "length (s512 st1) = 64" using st1(3) f(3) by (simp add: seed_of_def)
  have t: "take 8 (s512 st1) = replicate 8 0" using st1(3) f(3) z by simp
  from mixing_zero [OF ks' st1(2) l t, of 0 key]
  obtain st2 where st2: "mixing p key 0 st1 = Inr st2" "s512 st2 = s512 st1" by auto
  show ?thesis
    using i st1 st2 f(3)
    by (simp add: computeZeroTierIdentityMemoryHardHash_def hash_mixed_def hash_filled_def)
qed

subsection \<open>Key generation\<close>

lemma io_ReadFull_length: "io_ReadFull n rs = (Some bs, rs') \<Longrightarrow> length bs = n"
proof (induction n arbitrary: rs bs rs')
  case 0
  then show ?case by simp
next
  case (Suc n)
  then show ?case
    by (auto split: option.splits prod.splits)
qed

lemma io_ReadFull_sconst: "io_ReadFull n (sconst (Some b)) = (Some (replicate n b), sconst (Some b))"
  by (induction n) simp_all

lemma io_ReadFull_error: "0 < n \<Longrightarrow> io_ReadFull n (None ## rs) = (None, rs)"
  by (cases n) simp_all

lemma generateDualPair_Inr:
  assumes "generateDualPair p rs = Inr (pub, priv, rs')"
  shows "\<exists>seed scalar rs1.
      io_ReadFull 32 rs = (Some seed, rs1) \<and> io_ReadFull 32 rs1 = (Some scalar, rs') \<and>
      length seed = 32 \<and> length scalar = 32 \<and>
      pub = map (curve25519_ScalarBaseMult p scalar) [0..<32] @ map (ed25519_public p seed) [0..<32] \<and>
      priv = scalar @ seed"
proof -
  obtain r1 rs1 where r1: "io_ReadFull 32 rs = (r1, rs1)" by (cases "io_ReadFull 32 rs")
  obtain r2 rs2 where r2: "io_ReadFull 32 rs1 = (r2, rs2)" by (cases "io_ReadFull 32 rs1")
  from assms r1 r2 obtain scalar where sc: "r2 = Some scalar"
    by (cases r2; cases r1) (auto simp: generateDualPair_def ed25519_GenerateKey_def Let_def)
  from assms r1 r2 sc obtain seed where sd: "r1 = Some seed"
    by (cases r1) (auto simp: generateDualPair_def ed25519_GenerateKey_def Let_def slice_def)
  have l1: "length seed = 32" using r1 sd io_ReadFull_length by blast
  have l2: "length scalar = 32" using r2 sc io_ReadFull_length by blast
  have "generateDualPair p rs =
      Inr (map (curve25519_ScalarBaseMult p scalar) [0..<32] @ map (ed25519_public p seed) [0..<32],
           scalar @ seed, rs2)"
    using r1 r2 sc sd l1 l2
    by (simp add: generateDualPair_def ed25519_GenerateKey_def Let_def slice_def store_def)
  with assms r1 r2 sc sd l1 l2 show ?thesis by simp
qed

text \<open>
  Claim C9. Whenever the generator returns a pair, the two reads of the random source
  succeeded, first the 32-byte seed of the signature key and then the 32-byte scalar of the
  key agreement; both keys have 64 bytes; bytes 0 to 31 of the public key are the
  curve25519 public point of the scalar and bytes 32 to 63 the ed25519 public key of the
  seed; bytes 0 to 31 of the private key are the scalar and bytes 32 to 63 the seed.
\<close>

theorem generateDualPair_layout:
  assumes "generateDualPair p rs = Inr (pub, priv, rs')"
  shows "\<exists>seed scalar rs1.
      io_ReadFull 32 rs = (Some seed, rs1) \<and> io_ReadFull 32 rs1 = (Some scalar, rs') \<and>
      length pub = 64 \<and> length priv = 64 \<and>
      take 32 pub = map (curve25519_ScalarBaseMult p scalar) [0..<32] \<and>
      drop 32 pub = map (ed25519_public p seed) [0..<32] \<and>
      take 32 priv = scalar \<and> drop 32 priv = seed"
proof -
  from generateDualPair_Inr [OF assms] obtain seed scalar rs1 where
    f: "io_ReadFull 32 rs = (Some seed, rs1)" "io_ReadFull 32 rs1 = (Some scalar, rs')"
      "length seed = 32" "length scalar = 32"
      "pub = map (curve25519_ScalarBaseMult p scalar) [0..<32] @ map (ed25519_public p seed) [0..<32]"
      "priv = scalar @ seed"
    by blast
  show ?thesis
    using f by (intro exI [of _ seed] exI [of _ scalar] exI [of _ rs1]) simp
qed

lemma generateDualPair_sconst:
  "generateDualPair p (sconst (Some b)) =
     Inr (map (curve25519_ScalarBaseMult p (replicate 32 b)) [0..<32] @
            map (ed25519_public p (replicate 32 b)) [0..<32],
          replicate 32 b @ replicate 32 b, sconst (Some b))"
  by (simp add: generateDualPair_def ed25519_GenerateKey_def Let_def slice_def store_def
      io_ReadFull_sconst)

theorem generateDualPair_layout_witness:
  "\<exists>pub priv. generateDualPair test_primitives (sconst (Some 7)) = Inr (pub, priv, sconst (Some 7)) \<and>
     length pub = 64 \<and> length priv = 64 \<and>
     (\<exists>seed scalar. take 32 pub = map (curve25519_ScalarBaseMult test_primitives scalar) [0..<32] \<and>
        drop 32 pub = map (ed25519_public test_primitives seed) [0..<32] \<and>
        take 32 priv = scalar \<and> drop 32 priv = seed)"
proof -
  let ?pub = "map (curve25519_ScalarBaseMult test_primitives (replicate 32 7)) [0..<32] @
            map (ed25519_public test_primitives (replicate 32 7)) [0..<32]"
  let ?priv = "replicate 32 (7 :: byte) @ replicate 32 7"
  have e: "generateDualPair test_primitives (sconst (Some 7)) = Inr (?pub, ?priv, sconst (Some 7))"
    by (rule generateDualPair_sconst)
  from generateDualPair_layout [OF e] obtain seed scalar where
    "length ?pub = 64" "length ?priv = 64"
    "take 32 ?pub = map (curve25519_ScalarBaseMult test_primitives scalar) [0..<32]"
    "drop 32 ?pub = map (ed25519_public test_primitives seed) [0..<32]"
    "take 32 ?priv = scalar" "drop 32 ?priv = seed"
    by (elim exE conjE)
  with e show ?thesis by blast
qed

lemma generateDualPair_second_read_fails:
  "io_ReadFull 32 (snd (ed25519_GenerateKey p rs)) = (None, rs2) \<Longrightarrow>
   generateDualPair p rs = Inl NotEnoughEntropy"
  by (cases "ed25519_GenerateKey p rs") (auto simp: generateDualPair_def)

lemma generateDualPair_first_read_fails:
  "generateDualPair p (None ## sconst (Some 0)) = Inl SliceBoundsOutOfRange"
  by (simp add: generateDualPair_def ed25519_GenerateKey_def io_ReadFull_error
      io_ReadFull_sconst Let_def slice_def)

lemma mine_panic: "generateDualPair p rs = Inl e \<Longrightarrow> mine p ident rs = Some (Inl e)"
  by (subst mine.simps) simp

text \<open>
  Claim C3 fails on the code. When the read for the signature key fails and the read for
  the scalar succeeds, the error of line 84 has been dropped and the generator stops at
  line 92 on the nil slice with a slice-bounds panic, not with the entropy panic of line 88;
  \<^verbatim>\<open>NewZeroTierIdentity\<close> ends with that panic.
\<close>

theorem generateDualPair_dropped_error:
  "generateDualPair p (None ## sconst (Some 0)) = Inl SliceBoundsOutOfRange \<and>
   NewZeroTierIdentity p (None ## sconst (Some 0)) = Some (Inl SliceBoundsOutOfRange)"
  using generateDualPair_first_read_fails [of p]
  by (simp add: NewZeroTierIdentity_def mine_panic)

subsection \<open>Mining\<close>

lemma unat_ucast_byte: "unat (ucast (b :: byte) :: 64 word) = unat b"
proof -
  have "unat b < 2 ^ LENGTH(8)" by (rule unsigned_less)
  then show ?thesis by (simp add: unsigned_ucast_eq take_bit_nat_eq_self_iff)
qed

lemma window5:
  assumes "length dig = 64"
  shows "take 5 (drop 59 dig) = [dig ! 59, dig ! 60, dig ! 61, dig ! 62, dig ! 63]"
proof -
  have "drop 59 dig = dig ! 59 # dig ! 60 # dig ! 61 # dig ! 62 # dig ! 63 # drop 64 dig"
    using assms Cons_nth_drop_Suc [of 59 dig] Cons_nth_drop_Suc [of 60 dig]
      Cons_nth_drop_Suc [of 61 dig] Cons_nth_drop_Suc [of 62 dig] Cons_nth_drop_Suc [of 63 dig]
    by simp
  then show ?thesis by simp
qed

lemma digest_address_be:
  assumes "length dig = 64"
  shows "unat (digest_address dig) = be_nat (take 5 (drop 59 dig))"
    and "unat (digest_address dig) < 2 ^ 40"
proof -
  let ?a = "ucast (dig ! 59) :: 64 word"
  let ?b = "push_bit 8 ?a OR ucast (dig ! 60)"
  let ?c = "push_bit 8 ?b OR ucast (dig ! 61)"
  let ?d = "push_bit 8 ?c OR ucast (dig ! 62)"
  let ?e = "push_bit 8 ?d OR ucast (dig ! 63)"
  have byte: "unat (x :: byte) < 256" for x using unsigned_less [of x] by simp
  have a: "unat ?a = unat (dig ! 59)" by (rule unat_ucast_byte)
  have a': "unat ?a < 2 ^ 8" using a byte [of "dig ! 59"] by simp
  have b: "unat ?b = 256 * unat ?a + unat (dig ! 60)"
    using a' by (intro shift_or_byte) simp
  have b': "unat ?b < 2 ^ 16" using b a' byte [of "dig ! 60"] by simp
  have c: "unat ?c = 256 * unat ?b + unat (dig ! 61)"
    using b' by (intro shift_or_byte) simp
  have c': "unat ?c < 2 ^ 24" using c b' byte [of "dig ! 61"] by simp
  have d: "unat ?d = 256 * unat ?c + unat (dig ! 62)"
    using c' by (intro shift_or_byte) simp
  have d': "unat ?d < 2 ^ 32" using d c' byte [of "dig ! 62"] by simp
  have e: "unat ?e = 256 * unat ?d + unat (dig ! 63)"
    using d' by (intro shift_or_byte) simp
  have e': "unat ?e < 2 ^ 40" using e d' byte [of "dig ! 63"] by simp
  have da: "digest_address dig = ?e" by (simp add: digest_address_def)
  show "unat (digest_address dig) < 2 ^ 40" using e' da by simp
  show "unat (digest_address dig) = be_nat (take 5 (drop 59 dig))"
    unfolding da window5 [OF assms] be_nat_def
    by (simp only: foldl.simps e d c b a) simp
qed

lemma mine_accepts:
  assumes "mine p ident0 rs = Some (Inr (ident, rs'))"
  shows "\<exists>dig priv. computeZeroTierIdentityMemoryHardHash p (publicKey ident) = Inr dig \<and>
      dig ! 0 < ztIdentityHashCashFirstByteLessThan \<and> dig ! 59 \<noteq> 0xff \<and>
      address ident = digest_address dig \<and> address ident \<noteq> 0 \<and>
      privateKey ident = Some priv"
proof -
  let ?Q = "\<lambda>p (ident :: ZeroTierIdentity). \<exists>dig priv.
      computeZeroTierIdentityMemoryHardHash p (publicKey ident) = Inr dig \<and>
      dig ! 0 < ztIdentityHashCashFirstByteLessThan \<and> dig ! 59 \<noteq> 0xff \<and>
      address ident = digest_address dig \<and> address ident \<noteq> 0 \<and>
      privateKey ident = Some priv"
  let ?P = "\<lambda>p (ident0 :: ZeroTierIdentity) (rs :: rand)
      (y :: panic + ZeroTierIdentity \<times> rand).
      \<forall>ident rs'. y = Inr (ident, rs') \<longrightarrow> ?Q p ident"
  have "?P p ident0 rs (Inr (ident, rs'))"
  proof (rule mine.raw_induct [where P = ?P, OF _ assms])
    fix mine p ident0 rs y
    assume IH: "\<And>ident0 rs b y. mine ident0 rs b = Some y \<Longrightarrow> ?P ident0 rs b y"
      and eq: "(case generateDualPair p rs of
          Inl e \<Rightarrow> Some (Inl e)
        | Inr (pub, priv, rs') \<Rightarrow>
          (case computeZeroTierIdentityMemoryHardHash p pub of
             Inl e \<Rightarrow> Some (Inl e)
           | Inr dig \<Rightarrow>
               (if dig ! 0 < ztIdentityHashCashFirstByteLessThan \<and> dig ! 59 \<noteq> 0xff then
                  (let ident1 = ident0\<lparr>address := digest_address dig\<rparr> in
                   if address ident1 \<noteq> 0 then
                     Some (Inr (ident1\<lparr>publicKey := pub, privateKey := Some priv\<rparr>, rs'))
                   else mine p ident1 rs')
                else mine p ident0 rs'))) = Some y"
    show "?P p ident0 rs y"
    proof (intro allI impI)
      fix ident rs'
      assume y: "y = Inr (ident, rs')"
      show "?Q p ident"
      proof (cases "generateDualPair p rs")
        case (Inl e)
        with eq y show ?thesis by simp
      next
        case (Inr t)
        obtain pub priv rs1 where t: "t = (pub, priv, rs1)" by (cases t)
        show ?thesis
        proof (cases "computeZeroTierIdentityMemoryHardHash p pub")
          case (Inl e)
          with eq y Inr t show ?thesis by simp
        next
          case dig: (Inr dig)
          show ?thesis
          proof (cases "dig ! 0 < ztIdentityHashCashFirstByteLessThan \<and> dig ! 59 \<noteq> 0xff")
            case False
            with eq Inr t dig have "mine p ident0 rs1 = Some y" by auto
            from IH [OF this] y show ?thesis by blast
          next
            case True
            show ?thesis
            proof (cases "digest_address dig = 0")
              case z: True
              with eq Inr t dig True
              have "mine p (ident0\<lparr>address := digest_address dig\<rparr>) rs1 = Some y"
                by (simp add: Let_def)
              from IH [OF this] y show ?thesis by blast
            next
              case nz: False
              with eq Inr t dig True y
              have "ident = ident0\<lparr>address := digest_address dig, publicKey := pub,
                  privateKey := Some priv\<rparr>"
                by (simp add: Let_def)
              then show ?thesis using dig True nz by auto
            qed
          qed
        qed
      qed
    qed
  qed
  then show ?thesis by blast
qed

lemma seed_of_test: "seed_of test_primitives pk = map (\<lambda>j. if j = 15 \<or> j = 63 then 1 else 0) [0..<64]"
  by (simp add: seed_of_def test_primitives_def)

lemma hash_test_primitives:
  "computeZeroTierIdentityMemoryHardHash test_primitives pk = Inr (seed_of test_primitives pk)"
proof (rule hash_zero_keystream)
  show "salsa_keystream test_primitives key ctr j = 0" for key ctr j
    by (simp add: test_primitives_def)
  show "take 8 (seed_of test_primitives pk) = replicate 8 0"
    by (simp add: seed_of_test take_map list_eq_iff_nth_eq)
qed

lemma digest_test:
  "seed_of test_primitives pk ! 0 = 0" "seed_of test_primitives pk ! 59 = 0"
  "digest_address (seed_of test_primitives pk) = 1"
  by (simp_all add: seed_of_test digest_address_def)

lemma mine_test:
  "NewZeroTierIdentity test_primitives (sconst (Some 0)) =
     Some (Inr (\<lparr>address = 1, publicKey = replicate 64 0, privateKey = Some (replicate 64 0)\<rparr>,
                sconst (Some 0)))"
proof -
  have pub: "map (curve25519_ScalarBaseMult test_primitives (replicate 32 0)) [0..<32] @
      map (ed25519_public test_primitives (replicate 32 0)) [0..<32] = replicate 64 0"
    by (simp add: test_primitives_def list_eq_iff_nth_eq nth_append)
  have priv: "replicate 32 (0 :: byte) @ replicate 32 0 = replicate 64 0"
    by (simp flip: replicate_add)
  have g: "generateDualPair test_primitives (sconst (Some 0)) =
      Inr (replicate 64 0, replicate 64 0, sconst (Some 0))"
    using generateDualPair_sconst [of test_primitives 0] by (simp only: pub priv)
  show ?thesis
    unfolding NewZeroTierIdentity_def
    by (subst mine.simps)
      (simp add: g hash_test_primitives digest_test ztIdentityHashCashFirstByteLessThan_def)
qed

text \<open>
  Claim C1. Every identity that \<^verbatim>\<open>NewZeroTierIdentity\<close> returns has a public key whose
  memory-hard digest has 64 bytes, a first byte below 17 and byte 59 different from 0xFF;
  its address is the big-endian integer of digest bytes 59 to 63, and is not zero.
\<close>

theorem mining_correct:
  assumes "NewZeroTierIdentity p rs = Some (Inr (ident, rs'))"
  shows "\<exists>dig. computeZeroTierIdentityMemoryHardHash p (publicKey ident) = Inr dig \<and>
      length dig = 64 \<and> unat (dig ! 0) < 17 \<and> dig ! 59 \<noteq> 0xFF \<and>
      unat (address ident) = be_nat (take 5 (drop 59 dig)) \<and> address ident \<noteq> 0"
proof -
  from assms have "mine p \<lparr>address = 0, publicKey = replicate 64 0, privateKey = None\<rparr> rs =
      Some (Inr (ident, rs'))"
    by (simp add: NewZeroTierIdentity_def)
  from mine_accepts [OF this] obtain dig where
    d: "computeZeroTierIdentityMemoryHardHash p (publicKey ident) = Inr dig"
      "dig ! 0 < ztIdentityHashCashFirstByteLessThan" "dig ! 59 \<noteq> 0xff"
      "address ident = digest_address dig" "address ident \<noteq> 0"
    by blast
  from hash_returns [of p "publicKey ident"] d(1) have l: "length dig = 64" by auto
  have "unat (dig ! 0) < 17"
    using d(2) by (simp add: ztIdentityHashCashFirstByteLessThan_def word_less_nat_alt)
  moreover have "unat (address ident) = be_nat (take 5 (drop 59 dig))"
    using digest_address_be(1) [OF l] d(4) by simp
  ultimately show ?thesis using d l by blast
qed


theorem mining_correct_witness:
  "\<exists>ident rs' dig.
     NewZeroTierIdentity test_primitives (sconst (Some 0)) = Some (Inr (ident, rs')) \<and>
     computeZeroTierIdentityMemoryHardHash test_primitives (publicKey ident) = Inr dig \<and>
     length dig = 64 \<and> unat (dig ! 0) < 17 \<and> dig ! 59 \<noteq> 0xFF \<and>
     unat (address ident) = be_nat (take 5 (drop 59 dig)) \<and> address ident \<noteq> 0"
  using mining_correct [OF mine_test] mine_test by blast

subsection \<open>Where the mixing pass reads\<close>

lemma window8:
  assumes "8 \<le> length b"
  shows "take 8 b = [b ! 0, b ! 1, b ! 2, b ! 3, b ! 4, b ! 5, b ! 6, b ! 7]"
proof -
  have "take 8 b = map ((!) (take 8 b)) [0..<length (take 8 b)]"
    by (simp only: map_nth)
  also have "\<dots> = map ((!) (take 8 b)) [0..<8]"
    using assms by simp
  also have "\<dots> = map ((!) (take 8 b)) [0, 1, 2, 3, 4, 5, 6, 7]"
  proof -
    have "[0..<8] = [0, 1, 2, 3, 4, 5, 6, 7 :: nat]" by code_simp
    then show ?thesis by simp
  qed
  also have "\<dots> = [b ! 0, b ! 1, b ! 2, b ! 3, b ! 4, b ! 5, b ! 6, b ! 7]"
    by simp
  finally show ?thesis .
qed

lemma BigEndian_Uint64_be_nat:
  assumes "8 \<le> length b" and "BigEndian_Uint64 b = Inr w"
  shows "unat w = be_nat (take 8 b)"
proof -
  let ?u = "\<lambda>j. ucast (b ! j) :: 64 word"
  let ?h1 = "push_bit 8 (?u 0) OR ?u 1"
  let ?h2 = "push_bit 8 ?h1 OR ?u 2"
  let ?h3 = "push_bit 8 ?h2 OR ?u 3"
  let ?h4 = "push_bit 8 ?h3 OR ?u 4"
  let ?h5 = "push_bit 8 ?h4 OR ?u 5"
  let ?h6 = "push_bit 8 ?h5 OR ?u 6"
  let ?h7 = "push_bit 8 ?h6 OR ?u 7"
  have w: "w = ?h7"
    using assms by (simp add: BigEndian_Uint64_def push_bit_or ac_simps)
  have byte: "unat (x :: byte) < 256" for x using unsigned_less [of x] by simp
  have a0: "unat (?u 0) = unat (b ! 0)" by (rule unat_ucast_byte)
  have b0: "unat (?u 0) < 2 ^ 8" using a0 byte [of "b ! 0"] by simp
  have a1: "unat ?h1 = 256 * unat (?u 0) + unat (b ! 1)" using b0 by (intro shift_or_byte) simp
  have b1: "unat ?h1 < 2 ^ 16" using a1 b0 byte [of "b ! 1"] by simp
  have a2: "unat ?h2 = 256 * unat ?h1 + unat (b ! 2)" using b1 by (intro shift_or_byte) simp
  have b2: "unat ?h2 < 2 ^ 24" using a2 b1 byte [of "b ! 2"] by simp
  have a3: "unat ?h3 = 256 * unat ?h2 + unat (b ! 3)" using b2 by (intro shift_or_byte) simp
  have b3: "unat ?h3 < 2 ^ 32" using a3 b2 byte [of "b ! 3"] by simp
  have a4: "unat ?h4 = 256 * unat ?h3 + unat (b ! 4)" using b3 by (intro shift_or_byte) simp
  have b4: "unat ?h4 < 2 ^ 40" using a4 b3 byte [of "b ! 4"] by simp
  have a5: "unat ?h5 = 256 * unat ?h4 + unat (b ! 5)" using b4 by (intro shift_or_byte) simp
  have b5: "unat ?h5 < 2 ^ 48" using a5 b4 byte [of "b ! 5"] by simp
  have a6: "unat ?h6 = 256 * unat ?h5 + unat (b ! 6)" using b5 by (intro shift_or_byte) simp
  have b6: "unat ?h6 < 2 ^ 56" using a6 b5 byte [of "b ! 6"] by simp
  have a7: "unat ?h7 = 256 * unat ?h6 + unat (b ! 7)" using b6 by (intro shift_or_byte) simp
  show ?thesis
    unfolding w window8 [OF assms(1)] be_nat_def
    by (simp only: foldl.simps a7 a6 a5 a4 a3 a2 a1 a0) simp
qed

lemma hash_filled_zero:
  assumes ks: "\<And>key ctr j. salsa_keystream p key ctr j = 0"
  shows "\<exists>st. hash_filled p pk = Inr st \<and> genmem st = replicate ztIdentityGenMemory 0 \<and>
           s512 st = seed_of p pk"
proof -
  obtain key st0 where i: "hash_init p pk = (key, st0)" by (cases "hash_init p pk")
  note f = hash_init_facts [OF i]
  have g0: "genmem st0 = replicate ztIdentityGenMemory 0"
  proof -
    have "genmem st0 = store (replicate ztIdentityGenMemory 0) 0
        (XORKeyStream p (take 64 (replicate ztIdentityGenMemory 0))
           (store (replicate 16 0) 0 (take 8 (drop 32 (map (sha512_Sum512 p pk) [0..<64]))))
           key)"
      using i by (auto simp: hash_init_def Let_def)
    also have "\<dots> = replicate ztIdentityGenMemory 0"
      using store_zero_window [of 0 64 ztIdentityGenMemory]
      by (simp add: XORKeyStream_zero [OF ks]) (simp add: ztIdentityGenMemory_def)
    finally show ?thesis .
  qed
  have ks': "\<forall>key ctr j. salsa_keystream p key ctr j = 0" using ks by blast
  from fill_zero [OF ks' g0, of 64 key]
  obtain st1 where st1: "fill p key 64 st0 = Inr st1"
    "genmem st1 = replicate ztIdentityGenMemory 0" "s512 st1 = s512 st0" by auto
  show ?thesis using i st1 f(3) by (simp add: hash_filled_def)
qed

text \<open>
  Claim C2, as amended. In every iteration of the mixing pass, the loop variable \<open>i\<close> being
  a multiple of 16 below M, the two big-endian integers are read from the main buffer, at
  the offsets \<open>i\<close> and \<open>i + 8\<close>, which never wrap since \<open>i + 16 \<le> M\<close>; the seed is not read
  for them. \<open>idx1\<close> is 8 times the first integer modulo 8, \<open>idx2\<close> is 8 times the second
  modulo M/8, and the iteration swaps the two windows, re-encrypts the seed and goes on at
  \<open>i + 16\<close>.
\<close>

theorem mixing_reads_buffer:
  assumes "length (genmem st) = ztIdentityGenMemory" and "length (s512 st) = 64"
    and "16 dvd i" and "i < ztIdentityGenMemory"
  shows "\<exists>idx1 idx2.
      idx1 = 8 * (be_nat (take 8 (drop i (genmem st))) mod 8) \<and>
      idx2 = 8 * (be_nat (take 8 (drop (i + 8) (genmem st))) mod (ztIdentityGenMemory div 8)) \<and>
      i + 16 \<le> ztIdentityGenMemory \<and>
      mix_indices (genmem st) i = Inr (idx1, idx2) \<and>
      mixing p k i st =
        mixing p k (i + 16)
          \<lparr>genmem = store (genmem st) idx2 (take 8 (drop idx1 (s512 st))),
           s512 = XORKeyStream p (store (s512 st) idx1 (take 8 (drop idx2 (genmem st))))
                    (store (s20ctr st) 8 (LittleEndian_PutUint64 (s20ctri st))) k,
           s20ctr = store (s20ctr st) 8 (LittleEndian_PutUint64 (s20ctri st)),
           s20ctri = s20ctri st + 1\<rparr>"
proof -
  from mixing_step [OF assms, of p k] obtain w1 w2 idx1 idx2 where
    w1: "BigEndian_Uint64 (take 8 (drop i (genmem st))) = Inr w1" and
    w2: "BigEndian_Uint64 (take 8 (drop (i + 8) (genmem st))) = Inr w2" and
    i1: "idx1 = 8 * (unat w1 mod 8)" and
    i2: "idx2 = 8 * (unat w2 mod (ztIdentityGenMemory div 8))" and
    le: "i + 16 \<le> ztIdentityGenMemory" and
    mi: "mix_indices (genmem st) i = Inr (idx1, idx2)" and
    st: "mixing p k i st =
        mixing p k (i + 16)
          \<lparr>genmem = store (genmem st) idx2 (take 8 (drop idx1 (s512 st))),
           s512 = XORKeyStream p (store (s512 st) idx1 (take 8 (drop idx2 (genmem st))))
                    (store (s20ctr st) 8 (LittleEndian_PutUint64 (s20ctri st))) k,
           s20ctr = store (s20ctr st) 8 (LittleEndian_PutUint64 (s20ctri st)),
           s20ctri = s20ctri st + 1\<rparr>"
    by blast
  have l1: "8 \<le> length (take 8 (drop i (genmem st)))"
    and l2: "8 \<le> length (take 8 (drop (i + 8) (genmem st)))"
    using le assms(1) by simp_all
  have n1: "unat w1 = be_nat (take 8 (drop i (genmem st)))"
    using BigEndian_Uint64_be_nat [OF l1 w1] by simp
  have n2: "unat w2 = be_nat (take 8 (drop (i + 8) (genmem st)))"
    using BigEndian_Uint64_be_nat [OF l2 w2] by simp
  show ?thesis
    using i1 i2 le mi st unfolding n1 n2 by blast
qed

theorem mixing_reads_buffer_witness:
  "length (genmem \<lparr>genmem = replicate ztIdentityGenMemory 0, s512 = replicate 64 0,
                   s20ctr = replicate 16 0, s20ctri = 0\<rparr>) = ztIdentityGenMemory \<and>
   16 dvd (0 :: nat) \<and> 0 < ztIdentityGenMemory \<and>
   mix_indices (replicate ztIdentityGenMemory 0) 0 =
     Inr (8 * (be_nat (take 8 (drop 0 (replicate ztIdentityGenMemory 0))) mod 8),
          8 * (be_nat (take 8 (drop (0 + 8) (replicate ztIdentityGenMemory 0)))
                 mod (ztIdentityGenMemory div 8)))"
proof -
  let ?st = "\<lparr>genmem = replicate ztIdentityGenMemory (0 :: byte), s512 = replicate 64 (0 :: byte),
              s20ctr = replicate 16 (0 :: byte), s20ctri = 0 :: 64 word\<rparr>"
  have h1: "length (genmem ?st) = ztIdentityGenMemory" by simp
  have h2: "length (s512 ?st) = 64" by simp
  have h3: "16 dvd (0 :: nat)" by simp
  have h4: "0 < ztIdentityGenMemory" by (simp add: ztIdentityGenMemory_def)
  from mixing_reads_buffer [OF h1 h2 h3 h4, of test_primitives "[]"]
  have "mix_indices (genmem ?st) 0 =
     Inr (8 * (be_nat (take 8 (drop 0 (genmem ?st))) mod 8),
          8 * (be_nat (take 8 (drop (0 + 8) (genmem ?st))) mod (ztIdentityGenMemory div 8)))"
    by blast
  then show ?thesis using h1 h3 h4 by simp
qed

text \<open>
  Claim C2 as stated fails: on the test primitives and the empty key the first mixing step
  computes the indices (0, 0) from the buffer, where the pair read from the seed, at the
  index wrapped within its 64 bytes, gives (0, 8).
\<close>

theorem mixing_reads_seed_counterexample:
  "first_mix_indices test_primitives [] = Inr (0, 0) \<and>
   spec_first_mix_indices test_primitives [] = Inr (0, 8)"
proof -
  have ks: "salsa_keystream test_primitives key ctr j = 0" for key ctr j
    by (simp add: test_primitives_def)
  from hash_filled_zero [of test_primitives "[]", OF ks]
  obtain st where st: "hash_filled test_primitives [] = Inr st"
    "genmem st = replicate ztIdentityGenMemory 0" "s512 st = seed_of test_primitives []"
    by blast
  have le: "0 + 16 \<le> length (genmem st)" using st(2) by (simp add: ztIdentityGenMemory_def)
  have r1: "take 8 (drop 0 (genmem st)) = replicate 8 0"
    and r2: "take 8 (drop (0 + 8) (genmem st)) = replicate 8 0"
    using st(2) by (simp_all add: ztIdentityGenMemory_def)
  from mix_indices_read [OF le]
  have a: "mix_indices (genmem st) 0 = Inr (0, 0)"
    by (simp only: r1 r2 BigEndian_Uint64_zero) simp
  have s1: "take 8 (drop (0 mod 64) (s512 st)) = replicate 8 0"
    by (simp add: st(3) seed_of_test take_map list_eq_iff_nth_eq)
  have s2: "take 8 (drop ((0 + 8) mod 64) (s512 st)) = [0, 0, 0, 0, 0, 0, 0, 1]"
    by (simp add: st(3) seed_of_test take_map drop_map upt_rec_numeral)
  have w2: "BigEndian_Uint64 [0, 0, 0, 0, 0, 0, 0, 1] = Inr 1"
    by (simp add: BigEndian_Uint64_def)
  have b: "spec_seed_indices (s512 st) 0 = Inr (0, 8)"
    unfolding spec_seed_indices_def s1 s2 w2 BigEndian_Uint64_zero
    by (simp add: ztIdentityGenMemory_def)
  show ?thesis
    using st(1) a b by (simp add: first_mix_indices_def spec_first_mix_indices_def)
qed

subsection \<open>The string forms\<close>

lemma ldigits_all:
  "list_all (\<lambda>n. ldigits ! n \<in> set ''0123456789abcdef'' \<and> hexval (ldigits ! n) = n) [0..<16]"
  by code_simp

lemma ldigits_digit:
  assumes "n < 16"
  shows "ldigits ! n \<in> set ''0123456789abcdef''" and "hexval (ldigits ! n) = n"
proof -
  have "n \<in> set [0..<16]" using assms by simp
  with ldigits_all have "ldigits ! n \<in> set ''0123456789abcdef'' \<and> hexval (ldigits ! n) = n"
    unfolding list_all_iff by blast
  then show "ldigits ! n \<in> set ''0123456789abcdef''" and "hexval (ldigits ! n) = n"
    by blast+
qed

lemma hexval_zero: "hexval (CHR ''0'') = 0"
  by (simp add: hexval_def)

lemma hex_nat_append: "hex_nat (xs @ [c]) = 16 * hex_nat xs + hexval c"
  by (simp add: hex_nat_def)

lemma hex_nat_zeros: "hex_nat (replicate k (CHR ''0'') @ ds) = hex_nat ds"
proof -
  have "foldl (\<lambda>a c. 16 * a + hexval c) 0 (replicate k (CHR ''0'')) = 0"
    by (induction k) (simp_all add: hexval_zero)
  then show ?thesis by (simp add: hex_nat_def)
qed

lemma unat_low_nibble64: "unat ((u :: 64 word) AND 0xF) = unat u mod 16"
proof -
  have "u AND 0xF = u mod 16"
    using take_bit_eq_mask [of 4 u] by (simp add: mask_eq_exp_minus_1 take_bit_eq_mod)
  then show ?thesis by (simp add: unat_mod)
qed

lemma unat_low_nibble8: "unat ((u :: byte) AND 0xF) = unat u mod 16"
proof -
  have "u AND 0xF = u mod 16"
    using take_bit_eq_mask [of 4 u] by (simp add: mask_eq_exp_minus_1 take_bit_eq_mod)
  then show ?thesis by (simp add: unat_mod)
qed

lemma unat_high_nibble8: "unat (drop_bit 4 (u :: byte)) = unat u div 16"
  by (simp add: drop_bit_eq_div unat_div)

lemma unat_shift4: "unat (drop_bit 4 (u :: 64 word)) = unat u div 16"
  by (simp add: drop_bit_eq_div unat_div)

lemma hex_digits_props:
  "hex_nat (hex_digits u) = unat u \<and> set (hex_digits u) \<subseteq> set ''0123456789abcdef'' \<and>
   (\<forall>n. 0 < n \<and> unat u < 16 ^ n \<longrightarrow> length (hex_digits u) \<le> n) \<and> hex_digits u \<noteq> []"
proof (induction u rule: hex_digits.induct)
  case (1 u)
  show ?case
  proof (cases "16 \<le> u")
    case False
    then have lt: "unat u < 16" by (simp add: word_le_nat_alt)
    have hd: "hex_digits u = [ldigits ! unat u]"
      using False by (subst hex_digits.simps) simp
    show ?thesis
      using ldigits_digit [OF lt] by (auto simp: hd hex_nat_def Suc_le_eq)
  next
    case True
    then have ge: "16 \<le> unat u" by (simp add: word_le_nat_alt)
    have hd: "hex_digits u = hex_digits (drop_bit 4 u) @ [ldigits ! unat (u AND 0xF)]"
      using True by (subst hex_digits.simps) simp
    note IH = "1.IH" [OF True]
    have m: "unat (u AND 0xF) < 16" by (simp add: unat_low_nibble64)
    have v: "hex_nat (hex_digits u) = unat u"
      using IH ldigits_digit(2) [OF m]
      by (simp add: hd hex_nat_append unat_shift4 unat_low_nibble64)
    have s: "set (hex_digits u) \<subseteq> set ''0123456789abcdef''"
      using IH ldigits_digit(1) [OF m] unfolding hd by auto
    have l: "length (hex_digits u) \<le> n" if "0 < n \<and> unat u < 16 ^ n" for n
    proof -
      from that obtain m where n: "n = Suc m" by (cases n) auto
      have m0: "0 < m"
      proof (rule ccontr)
        assume "\<not> 0 < m"
        then have "n = 1" using n by simp
        with that ge show False by simp
      qed
      from that n have "unat u div 16 < 16 ^ m"
        by (simp add: less_mult_imp_div_less mult.commute)
      with IH m0 have "length (hex_digits (drop_bit 4 u)) \<le> m"
        by (simp add: unat_shift4)
      then show ?thesis by (simp add: hd n)
    qed
    show ?thesis using v s l by (simp add: hd)
  qed
qed

lemma fmtInteger_x_10:
  assumes "unat u < 2 ^ 40"
  shows "length (fmtInteger_x 10 u) = 10"
    and "set (fmtInteger_x 10 u) \<subseteq> set ''0123456789abcdef''"
    and "hex_nat (fmtInteger_x 10 u) = unat u"
proof -
  have "(2 :: nat) ^ 40 = 16 ^ 10" by simp
  with assms have "unat u < 16 ^ 10" by simp
  with hex_digits_props [of u] have l: "length (hex_digits u) \<le> 10" by simp
  then show "length (fmtInteger_x 10 u) = 10" by (simp add: fmtInteger_x_def Let_def)
  show "set (fmtInteger_x 10 u) \<subseteq> set ''0123456789abcdef''"
    using hex_digits_props [of u] by (auto simp: fmtInteger_x_def Let_def)
  show "hex_nat (fmtInteger_x 10 u) = unat u"
    using hex_digits_props [of u] by (simp add: fmtInteger_x_def Let_def hex_nat_zeros)
qed

lemma byte_nibbles: "word_of_nat (16 * (unat (c :: byte) div 16) + unat c mod 16) = c"
  by simp

lemma fmtSbx_Cons:
  "fmtSbx (c # bs) = ldigits ! unat (drop_bit 4 c) # ldigits ! unat (c AND 0xF) # fmtSbx bs"
  by (simp add: fmtSbx_def)

lemma fmtSbx_props:
  "length (fmtSbx bs) = 2 * length bs \<and> set (fmtSbx bs) \<subseteq> set ''0123456789abcdef'' \<and>
   hex_bytes (fmtSbx bs) = bs"
proof (induction bs)
  case Nil
  show ?case by (simp add: fmtSbx_def)
next
  case (Cons c bs)
  have "unat c < 2 ^ LENGTH(8)" by (rule unsigned_less)
  then have hi: "unat c div 16 < 16" by simp
  have lo: "unat c mod 16 < 16" by simp
  note h = ldigits_digit [OF hi] and l = ldigits_digit [OF lo]
  show ?case
    using Cons.IH h l
    by (simp add: fmtSbx_Cons unat_high_nibble8 unat_low_nibble8 del: insert_subset) auto
qed

text \<open>
  Claim C6. For an identity whose address has at most 40 bits (and whose public key has its
  64 bytes), the public string is 10 characters, then \<^verbatim>\<open>:0:\<close>, then 128 characters; all
  of them are lowercase hexadecimal digits; the first 10 denote the address and the last
  128 denote the public key, byte by byte.
\<close>

theorem PublicKeyString_format:
  assumes "unat (address ident) < 2 ^ 40" and "length (publicKey ident) = 64"
  shows "\<exists>a k. PublicKeyString ident = a @ '':0:'' @ k \<and> length a = 10 \<and> length k = 128 \<and>
      set a \<subseteq> set ''0123456789abcdef'' \<and> set k \<subseteq> set ''0123456789abcdef'' \<and>
      hex_nat a = unat (address ident) \<and> hex_bytes k = publicKey ident"
proof (intro exI conjI)
  show "PublicKeyString ident = fmtInteger_x 10 (address ident) @ '':0:'' @ fmtSbx (publicKey ident)"
    by (simp add: PublicKeyString_def)
  show "length (fmtInteger_x 10 (address ident)) = 10"
    and "set (fmtInteger_x 10 (address ident)) \<subseteq> set ''0123456789abcdef''"
    and "hex_nat (fmtInteger_x 10 (address ident)) = unat (address ident)"
    using fmtInteger_x_10 [OF assms(1)] by blast+
  show "length (fmtSbx (publicKey ident)) = 128"
    using fmtSbx_props [of "publicKey ident"] assms(2) by simp
  show "set (fmtSbx (publicKey ident)) \<subseteq> set ''0123456789abcdef''"
    and "hex_bytes (fmtSbx (publicKey ident)) = publicKey ident"
    using fmtSbx_props [of "publicKey ident"] by blast+
qed

theorem PublicKeyString_format_witness:
  "unat (address \<lparr>address = 1, publicKey = replicate 64 0, privateKey = None\<rparr>) < 2 ^ 40 \<and>
   length (publicKey \<lparr>address = 1, publicKey = replicate 64 0, privateKey = None\<rparr>) = 64 \<and>
   (\<exists>a k. PublicKeyString \<lparr>address = 1, publicKey = replicate 64 0, privateKey = None\<rparr> =
        a @ '':0:'' @ k \<and> length a = 10 \<and> length k = 128 \<and> hex_nat a = 1 \<and>
        hex_bytes k = replicate 64 0)"
proof -
  let ?i = "\<lparr>address = 1 :: 64 word, publicKey = replicate 64 (0 :: byte),
             privateKey = None :: byte list option\<rparr>"
  have h1: "unat (address ?i) < 2 ^ 40" by simp
  have h2: "length (publicKey ?i) = 64" by simp
  from PublicKeyString_format [OF h1 h2] h1 h2 show ?thesis by auto
qed


text \<open>
  Claim C7. With a private key, the private string is the public string, then \<^verbatim>\<open>:\<close>, then
  two lowercase hexadecimal digits for each byte of the private key (128 for its 64 bytes),
  which denote the key; without a private key it is the empty string.
\<close>

theorem PrivateKeyString_format:
  "(\<forall>priv. privateKey ident = Some priv \<longrightarrow>
      (\<exists>k. PrivateKeyString ident = PublicKeyString ident @ '':'' @ k \<and>
         length k = 2 * length priv \<and> set k \<subseteq> set ''0123456789abcdef'' \<and>
         hex_bytes k = priv)) \<and>
   (privateKey ident = None \<longrightarrow> PrivateKeyString ident = '''')"
proof (intro conjI allI impI)
  fix priv
  assume p: "privateKey ident = Some priv"
  have "PrivateKeyString ident = PublicKeyString ident @ '':'' @ fmtSbx priv"
    using p by (simp add: PrivateKeyString_def PublicKeyString_def)
  then show "\<exists>k. PrivateKeyString ident = PublicKeyString ident @ '':'' @ k \<and>
         length k = 2 * length priv \<and> set k \<subseteq> set ''0123456789abcdef'' \<and>
         hex_bytes k = priv"
    using fmtSbx_props [of priv] by blast
next
  assume "privateKey ident = None"
  then show "PrivateKeyString ident = ''''" by (simp add: PrivateKeyString_def)
qed
theorem PrivateKeyString_format_witness:
  "privateKey \<lparr>address = 1, publicKey = replicate 64 0, privateKey = Some (replicate 64 7)\<rparr> =
     Some (replicate 64 7) \<and>
   (\<exists>k. PrivateKeyString \<lparr>address = 1, publicKey = replicate 64 0, privateKey = Some (replicate 64 7)\<rparr> =
      PublicKeyString \<lparr>address = 1, publicKey = replicate 64 0, privateKey = Some (replicate 64 7)\<rparr>
        @ '':'' @ k \<and> length k = 128 \<and> hex_bytes k = replicate 64 7) \<and>
   privateKey \<lparr>address = 1, publicKey = replicate 64 0, privateKey = None\<rparr> = None \<and>
   PrivateKeyString \<lparr>address = 1, publicKey = replicate 64 0, privateKey = None\<rparr> = ''''"
proof -
  let ?i = "\<lparr>address = 1 :: 64 word, publicKey = replicate 64 (0 :: byte),
             privateKey = Some (replicate 64 (7 :: byte))\<rparr>"
  let ?j = "\<lparr>address = 1 :: 64 word, publicKey = replicate 64 (0 :: byte),
             privateKey = None :: byte list option\<rparr>"
  have h1: "privateKey ?i = Some (replicate 64 7)" by simp
  have h2: "privateKey ?j = None" by simp
  from PrivateKeyString_format [of ?i] h1
  have a: "\<exists>k. PrivateKeyString ?i = PublicKeyString ?i @ '':'' @ k \<and>
         length k = 2 * length (replicate 64 (7 :: byte)) \<and> hex_bytes k = replicate 64 7"
    by blast
  from PrivateKeyString_format [of ?j] h2 have b: "PrivateKeyString ?j = ''''" by blast
  from a b h1 h2 show ?thesis by simp
qed

end
